theory Spec2Isabelle
  imports Complex_Main "HOL-Library.Word" "HOL-Library.Sublist"
begin

unbundle bit_operations_syntax

section \<open>Common types\<close>

text \<open>
  \<^verbatim>\<open>std::size_t\<close> is the 64-bit unsigned integer of the targets named in
  \<^verbatim>\<open>ring_buffer.hpp\<close> (x86-64, ARM64; \<^verbatim>\<open>next_power_of_two\<close> shifts by 32).
  Addition and subtraction wrap around.  \<^verbatim>\<open>float\<close> values are idealised as
  \<^typ>\<open>real\<close>; the ring buffer only stores and copies its elements, so it is
  polymorphic in the element type.
\<close>

type_synonym size_t = "64 word"

datatype error = InvalidArgument | RuntimeError | AssertionFailure | DivisionByZero | BadAlloc

text \<open>The size of a \<^verbatim>\<open>std::span\<close> is a \<^verbatim>\<open>size_t\<close>.\<close>

definition span_size :: "'a list \<Rightarrow> size_t" where
  "span_size xs = of_nat (length xs)"

section \<open>Ring buffer (\<^verbatim>\<open>include/audiovis/ring_buffer.hpp\<close>)\<close>

record 'a RingBuffer =
  capacity :: size_t
  mask_f :: size_t
  buffer :: "'a list"
  write_pos :: size_t
  read_pos :: size_t

text \<open>\<^verbatim>\<open>RingBuffer::next_power_of_two\<close>: decrement, smear the top bit down, increment.\<close>

definition next_power_of_two :: "size_t \<Rightarrow> size_t" where
  "next_power_of_two n =
     (if n = 0 then 1
      else
        let n0 = n - 1;
            n1 = n0 OR drop_bit 1 n0;
            n2 = n1 OR drop_bit 2 n1;
            n3 = n2 OR drop_bit 4 n2;
            n4 = n3 OR drop_bit 8 n3;
            n5 = n4 OR drop_bit 16 n4;
            n6 = n5 OR drop_bit 32 n5
        in n6 + 1)"

text \<open>
  The constructor.  The member initialisers run first: \<^verbatim>\<open>capacity_\<close>, \<^verbatim>\<open>mask_\<close> and
  the storage \<^verbatim>\<open>std::make_unique<T[]>(capacity_)\<close>.  Whether the allocator grants an
  array of that many elements is outside the program and enters as the parameter
  \<open>alloc\<close>; when it does not, \<^verbatim>\<open>make_unique\<close> throws \<^verbatim>\<open>std::bad_alloc\<close> (or
  \<^verbatim>\<open>std::bad_array_new_length\<close> when the byte count exceeds the largest object size) and
  the constructor body is never reached.  Granted storage is value-initialised.  The
  \<^verbatim>\<open>assert\<close> in the constructor body is the second error branch.
\<close>

definition RingBuffer_ctor :: "(size_t \<Rightarrow> bool) \<Rightarrow> size_t \<Rightarrow> error + ('a::zero) RingBuffer" where
  "RingBuffer_ctor alloc min_capacity =
     (let c = next_power_of_two min_capacity;
          m = c - 1
      in if \<not> alloc c then Inl BadAlloc
         else if c > 0 \<and> c AND m = 0
         then Inr \<lparr>capacity = c, mask_f = m, buffer = replicate (unat c) 0,
                   write_pos = 0, read_pos = 0\<rparr>
         else Inl AssertionFailure)"

definition rb_size :: "'a RingBuffer \<Rightarrow> size_t" where
  "rb_size rb = write_pos rb - read_pos rb"

definition available :: "'a RingBuffer \<Rightarrow> size_t" where
  "available rb = capacity rb - rb_size rb"

definition empty_rb :: "'a RingBuffer \<Rightarrow> bool" where
  "empty_rb rb \<longleftrightarrow> rb_size rb = 0"

definition full :: "'a RingBuffer \<Rightarrow> bool" where
  "full rb \<longleftrightarrow> rb_size rb = capacity rb"

text \<open>\<^verbatim>\<open>bool try_push(const T& value)\<close>\<close>

definition try_push :: "'a \<Rightarrow> 'a RingBuffer \<Rightarrow> bool \<times> 'a RingBuffer" where
  "try_push v rb =
     (let w = write_pos rb; r = read_pos rb
      in if w - r \<ge> capacity rb then (False, rb)
         else (True, rb\<lparr>buffer := (buffer rb)[unat (w AND mask_f rb) := v],
                         write_pos := w + 1\<rparr>))"

text \<open>
  \<^verbatim>\<open>std::size_t try_push(std::span<const T> data)\<close>: the loop
  \<^verbatim>\<open>for i < to_write: buffer_[(w + i) & mask_] = data[i]\<close> is a fold over the indices.
\<close>

definition try_push_span :: "'a list \<Rightarrow> 'a RingBuffer \<Rightarrow> size_t \<times> 'a RingBuffer" where
  "try_push_span data rb =
     (let w = write_pos rb; r = read_pos rb;
          avail = capacity rb - (w - r);
          to_write = min avail (span_size data);
          buf = fold (\<lambda>i b. b[unat ((w + of_nat i) AND mask_f rb) := data ! i])
                     [0..<unat to_write] (buffer rb)
      in (to_write, rb\<lparr>buffer := buf, write_pos := w + to_write\<rparr>))"

text \<open>\<^verbatim>\<open>void push_overwrite(const T& value)\<close>\<close>

definition push_overwrite :: "'a \<Rightarrow> 'a RingBuffer \<Rightarrow> 'a RingBuffer" where
  "push_overwrite v rb =
     (let w = write_pos rb;
          rb1 = rb\<lparr>buffer := (buffer rb)[unat (w AND mask_f rb) := v], write_pos := w + 1\<rparr>;
          r = read_pos rb1
      in if w + 1 - r > capacity rb1 then rb1\<lparr>read_pos := w + 1 - capacity rb1\<rparr> else rb1)"

text \<open>\<^verbatim>\<open>bool try_pop(T& out)\<close>: the out parameter is returned, unchanged on failure.\<close>

definition try_pop :: "'a \<Rightarrow> 'a RingBuffer \<Rightarrow> bool \<times> 'a \<times> 'a RingBuffer" where
  "try_pop out rb =
     (let r = read_pos rb; w = write_pos rb
      in if r \<ge> w then (False, out, rb)
         else (True, buffer rb ! unat (r AND mask_f rb), rb\<lparr>read_pos := r + 1\<rparr>))"

text \<open>
  The copy loop shared by the span \<^verbatim>\<open>try_pop\<close> and \<^verbatim>\<open>peek\<close>:
  \<^verbatim>\<open>for i < n: out[i] = buffer_[(r + i) & mask_]\<close>.
\<close>

definition copy_out :: "'a RingBuffer \<Rightarrow> size_t \<Rightarrow> nat \<Rightarrow> 'a list \<Rightarrow> 'a list" where
  "copy_out rb r n out =
     fold (\<lambda>i out. out[i := buffer rb ! unat ((r + of_nat i) AND mask_f rb)]) [0..<n] out"

text \<open>\<^verbatim>\<open>std::size_t try_pop(std::span<T> out)\<close>\<close>

definition try_pop_span :: "'a list \<Rightarrow> 'a RingBuffer \<Rightarrow> 'a list \<times> size_t \<times> 'a RingBuffer" where
  "try_pop_span out rb =
     (let r = read_pos rb; w = write_pos rb;
          avail = w - r;
          to_read = min avail (span_size out)
      in (copy_out rb r (unat to_read) out, to_read, rb\<lparr>read_pos := r + to_read\<rparr>))"

text \<open>\<^verbatim>\<open>std::size_t peek(std::span<T> out) const\<close>\<close>

definition peek :: "'a list \<Rightarrow> 'a RingBuffer \<Rightarrow> 'a list \<times> size_t" where
  "peek out rb =
     (let r = read_pos rb; w = write_pos rb;
          avail = w - r;
          to_copy = min avail (span_size out)
      in (copy_out rb r (unat to_copy) out, to_copy))"

text \<open>\<^verbatim>\<open>std::size_t discard(std::size_t count)\<close>\<close>

definition discard :: "size_t \<Rightarrow> 'a RingBuffer \<Rightarrow> size_t \<times> 'a RingBuffer" where
  "discard count rb =
     (let r = read_pos rb; w = write_pos rb;
          avail = w - r;
          to_discard = min avail count
      in (to_discard, rb\<lparr>read_pos := r + to_discard\<rparr>))"

text \<open>\<^verbatim>\<open>void clear()\<close>\<close>

definition clear :: "'a RingBuffer \<Rightarrow> 'a RingBuffer" where
  "clear rb = rb\<lparr>read_pos := write_pos rb\<rparr>"

section \<open>Ring buffer: invariant, contents and operation sequences\<close>


text \<open>
  The class invariant: what the constructor asserts (\<^verbatim>\<open>capacity_ > 0\<close>,
  \<^verbatim>\<open>(capacity_ & mask_) == 0\<close>), how it initialises \<^verbatim>\<open>mask_\<close> and the storage,
  and the occupancy bound \<^verbatim>\<open>write_pos - read_pos <= capacity\<close>.
\<close>

definition rb_inv :: "'a RingBuffer \<Rightarrow> bool" where
  "rb_inv rb \<longleftrightarrow>
     capacity rb > 0 \<and> capacity rb AND mask_f rb = 0 \<and> mask_f rb = capacity rb - 1 \<and>
     length (buffer rb) = unat (capacity rb) \<and>
     write_pos rb - read_pos rb \<le> capacity rb"

text \<open>The queued elements, oldest first: slot \<^verbatim>\<open>(read_pos + i) & mask\<close> for \<open>i < size()\<close>.\<close>

definition contents :: "'a RingBuffer \<Rightarrow> 'a list" where
  "contents rb =
     map (\<lambda>i. buffer rb ! unat ((read_pos rb + of_nat i) AND mask_f rb))
         [0..<unat (rb_size rb)]"

text \<open>
  A sequential client: each operation is one call of \<^verbatim>\<open>try_push\<close> or
  \<^verbatim>\<open>try_pop\<close> (single element or span; a pop carries the caller's output
  variable or span).  \<open>step\<close> runs one call and records the values the push
  accepted and the values the pop returned.
\<close>

datatype 'a op = Push 'a | PushSpan "'a list" | Pop 'a | PopSpan "'a list"

fun step :: "'a op \<Rightarrow> 'a list \<times> 'a list \<times> 'a RingBuffer \<Rightarrow> 'a list \<times> 'a list \<times> 'a RingBuffer" where
  "step (Push v) (pushed, popped, rb) =
     (case try_push v rb of (ok, rb') \<Rightarrow> (if ok then pushed @ [v] else pushed, popped, rb'))"
| "step (PushSpan d) (pushed, popped, rb) =
     (case try_push_span d rb of (n, rb') \<Rightarrow> (pushed @ take (unat n) d, popped, rb'))"
| "step (Pop out) (pushed, popped, rb) =
     (case try_pop out rb of (ok, v, rb') \<Rightarrow> (pushed, if ok then popped @ [v] else popped, rb'))"
| "step (PopSpan out) (pushed, popped, rb) =
     (case try_pop_span out rb of (out', n, rb') \<Rightarrow> (pushed, popped @ take (unat n) out', rb'))"

definition run :: "'a op list \<Rightarrow> 'a RingBuffer \<Rightarrow> 'a list \<times> 'a list \<times> 'a RingBuffer" where
  "run ops rb = fold step ops ([], [], rb)"

text \<open>
  \<open>pops n out\<close>: \<open>n\<close> successive calls of the single-element \<^verbatim>\<open>try_pop\<close> on the
  same output variable, keeping each call's result and the variable's value after it.
\<close>

fun pops :: "nat \<Rightarrow> 'a \<Rightarrow> 'a RingBuffer \<Rightarrow> (bool \<times> 'a) list \<times> 'a RingBuffer" where
  "pops 0 out rb = ([], rb)"
| "pops (Suc n) out rb =
     (case try_pop out rb of
        (ok, v, rb') \<Rightarrow> (case pops n v rb' of (rs, rb'') \<Rightarrow> ((ok, v) # rs, rb'')))"

section \<open>FFT processor (\<^verbatim>\<open>src/fft_processor.cpp\<close>)\<close>

datatype WindowFunction = Rectangular | Hann | Hamming | Blackman | FlatTop

record FFTConfig =
  fft_size :: size_t
  window :: WindowFunction
  use_magnitude_db :: bool
  db_floor :: real
  db_ceiling :: real

text \<open>
  The FFTW library is external and enters as a parameter: whether
  \<^verbatim>\<open>fftwf_alloc_real\<close> returns a buffer (and the uninitialised contents it has),
  whether \<^verbatim>\<open>fftwf_alloc_complex\<close> and \<^verbatim>\<open>fftwf_plan_dft_r2c_1d\<close> succeed, and the
  complex output \<^verbatim>\<open>fftwf_execute\<close> leaves for a given input buffer.
\<close>

record FFTW =
  alloc_real :: "size_t \<Rightarrow> real list option"
  alloc_complex :: "size_t \<Rightarrow> bool"
  plan_dft_r2c_1d :: "int \<Rightarrow> bool"
  execute :: "real list \<Rightarrow> (real \<times> real) list"

text \<open>
  The processor: its configuration, the FFTW input buffer \<^verbatim>\<open>fftw_->input\<close> and the
  window coefficients \<^verbatim>\<open>window_\<close>.
\<close>

record FFTProcessor =
  config :: FFTConfig
  input :: "real list"
  window_v :: "real list"

definition bin_count :: "FFTProcessor \<Rightarrow> size_t" where
  "bin_count p = fft_size (config p) div 2 + 1"

text \<open>\<^verbatim>\<open>std::vector::resize(n)\<close>: keep the first \<open>n\<close> elements, pad with zeros.\<close>

definition resize :: "real list \<Rightarrow> nat \<Rightarrow> real list" where
  "resize xs n = take n xs @ replicate (n - length xs) 0"

text \<open>
  \<^verbatim>\<open>allocate_buffers\<close>.  \<^verbatim>\<open>static_cast<int>(config_.fft_size)\<close> keeps the low 32 bits
  as a signed value; each failed allocation or plan throws \<^verbatim>\<open>std::runtime_error\<close>.
\<close>

definition allocate_buffers :: "FFTW \<Rightarrow> FFTProcessor \<Rightarrow> error + FFTProcessor" where
  "allocate_buffers fftw p =
     (let n = sint (ucast (fft_size (config p)) :: 32 word);
          out_size = fft_size (config p) div 2 + 1
      in case alloc_real fftw (word_of_int n) of
           None \<Rightarrow> Inl RuntimeError
         | Some inp \<Rightarrow>
             if \<not> alloc_complex fftw out_size then Inl RuntimeError
             else if \<not> plan_dft_r2c_1d fftw n then Inl RuntimeError
             else Inr (p\<lparr>input := inp,
                         window_v := resize (window_v p) (unat (fft_size (config p)))\<rparr>))"

text \<open>The window coefficient at \<open>x = i / (n - 1)\<close>, one case per window function.\<close>

fun window_coeff :: "WindowFunction \<Rightarrow> real \<Rightarrow> real" where
  "window_coeff Rectangular x = 1"
| "window_coeff Hann x = 0.5 * (1 - cos (2 * pi * x))"
| "window_coeff Hamming x = 0.54 - 0.46 * cos (2 * pi * x)"
| "window_coeff Blackman x = 0.42 - 0.5 * cos (2 * pi * x) + 0.08 * cos (4 * pi * x)"
| "window_coeff FlatTop x =
     0.21557895 - 0.41663158 * cos (2 * pi * x) + 0.277263158 * cos (4 * pi * x)
       - 0.083578947 * cos (6 * pi * x) + 0.006947368 * cos (8 * pi * x)"

text \<open>
  \<^verbatim>\<open>compute_window\<close>: \<^verbatim>\<open>std::fill\<close> for the rectangular window, otherwise the loop
  \<^verbatim>\<open>for i < n: window_[i] = ...\<close>.
\<close>

definition compute_window :: "FFTProcessor \<Rightarrow> FFTProcessor" where
  "compute_window p =
     (let n = fft_size (config p)
      in case window (config p) of
           Rectangular \<Rightarrow> p\<lparr>window_v := map (\<lambda>_. 1) (window_v p)\<rparr>
         | wfn \<Rightarrow> p\<lparr>window_v :=
                    fold (\<lambda>i w. w[i := window_coeff wfn (real i / real (unat (n - 1)))])
                         [0..<unat n] (window_v p)\<rparr>)"

text \<open>
  The constructor: the power-of-two test throws \<^verbatim>\<open>std::invalid_argument\<close>, then
  \<^verbatim>\<open>allocate_buffers\<close> and \<^verbatim>\<open>compute_window\<close> run.
\<close>

definition FFTProcessor_ctor :: "FFTW \<Rightarrow> FFTConfig \<Rightarrow> error + FFTProcessor" where
  "FFTProcessor_ctor fftw cfg =
     (if fft_size cfg AND (fft_size cfg - 1) \<noteq> 0 then Inl InvalidArgument
      else case allocate_buffers fftw \<lparr>config = cfg, input = [], window_v = []\<rparr> of
             Inl e \<Rightarrow> Inl e
           | Inr p \<Rightarrow> Inr (compute_window p))"

text \<open>\<^verbatim>\<open>std::clamp(v, lo, hi)\<close>\<close>

definition clamp :: "'a::linorder \<Rightarrow> 'a \<Rightarrow> 'a \<Rightarrow> 'a" where
  "clamp v lo hi = (if v < lo then lo else if hi < v then hi else v)"

text \<open>The magnitude written to \<^verbatim>\<open>output[i]\<close> from the complex bin \<open>(re, im)\<close>.\<close>

definition bin_magnitude :: "FFTConfig \<Rightarrow> size_t \<Rightarrow> nat \<Rightarrow> real \<times> real \<Rightarrow> real" where
  "bin_magnitude cfg num_bins i c =
     (let n = fft_size cfg;
          scale = 2 / real (unat n);
          re = fst c; im = snd c;
          magnitude = sqrt (re * re + im * im) * scale;
          magnitude = (if i = 0 \<or> i = unat (num_bins - 1) then magnitude * 0.5 else magnitude)
      in if use_magnitude_db cfg
         then let db = 20 * log 10 (magnitude + 1 / 10 ^ 10);
                  db = clamp db (db_floor cfg) (db_ceiling cfg)
              in (db - db_floor cfg) / (db_ceiling cfg - db_floor cfg)
         else magnitude)"

text \<open>
  \<^verbatim>\<open>compute(samples, output)\<close>.  The assertion on the output size is the error
  branch (the assertion on the plan holds for every constructed processor, whose plan is
  never null); the three loops are folds over their index ranges.  The result is
  the updated processor (its input buffer), the output span and the returned count.
\<close>

definition compute ::
  "FFTW \<Rightarrow> real list \<Rightarrow> real list \<Rightarrow> FFTProcessor \<Rightarrow> error + (FFTProcessor \<times> real list \<times> size_t)" where
  "compute fftw samples output p =
     (if \<not> span_size output \<ge> bin_count p then Inl AssertionFailure
      else
        let n = fft_size (config p);
            copy_count = min (span_size samples) n;
            offset = n - copy_count;
            in1 = fold (\<lambda>i inp. inp[i := 0]) [0..<unat offset] (input p);
            in2 = fold (\<lambda>i inp. inp[unat (offset + of_nat i) :=
                           samples ! unat (span_size samples - copy_count + of_nat i)
                             * window_v p ! unat (offset + of_nat i)])
                       [0..<unat copy_count] in1;
            out_c = execute fftw in2;
            num_bins = bin_count p;
            output' = fold (\<lambda>i out. out[i := bin_magnitude (config p) num_bins i (out_c ! i)])
                           [0..<unat num_bins] output
        in Inr (p\<lparr>input := in2\<rparr>, output', num_bins))"

text \<open>
  A \<^verbatim>\<open>float\<close> converted to \<^verbatim>\<open>std::size_t\<close> is truncated towards zero; outside the
  range of \<^verbatim>\<open>size_t\<close> the C++ conversion is undefined, here it wraps.
\<close>

definition float_to_size_t :: "real \<Rightarrow> size_t" where
  "float_to_size_t x = word_of_int (if 0 \<le> x then \<lfloor>x\<rfloor> else \<lceil>x\<rceil>)"

text \<open>The lambda \<^verbatim>\<open>freq_to_bin\<close> of \<^verbatim>\<open>compute_log_bands\<close>.\<close>

definition freq_to_bin :: "size_t \<Rightarrow> real \<Rightarrow> size_t \<Rightarrow> real \<Rightarrow> size_t" where
  "freq_to_bin bins sample_rate n_fft freq =
     (let bin = float_to_size_t (freq * real (unat n_fft) / sample_rate)
      in clamp bin 0 (bins - 1))"

text \<open>One round of the loop of \<^verbatim>\<open>compute_log_bands\<close>: the pair for band \<open>i\<close>.\<close>

definition log_band :: "size_t \<Rightarrow> real \<Rightarrow> size_t \<Rightarrow> real \<Rightarrow> real \<Rightarrow> nat \<Rightarrow> size_t \<times> size_t" where
  "log_band bins sample_rate n_fft log_min log_step i =
     (let freq_lo = 10 powr (log_min + log_step * real i);
          freq_hi = 10 powr (log_min + log_step * real (i + 1));
          bin_lo = freq_to_bin bins sample_rate n_fft freq_lo;
          bin_hi = freq_to_bin bins sample_rate n_fft freq_hi;
          bin_hi = (if bin_hi \<le> bin_lo then bin_lo + 1 else bin_hi);
          bin_hi = min bin_hi bins
      in (bin_lo, bin_hi))"

definition compute_log_bands ::
  "size_t \<Rightarrow> size_t \<Rightarrow> real \<Rightarrow> real \<Rightarrow> real \<Rightarrow> size_t \<Rightarrow> (size_t \<times> size_t) list" where
  "compute_log_bands bins num_bars min_freq max_freq sample_rate n_fft =
     (let log_min = log 10 min_freq;
          log_max = log 10 max_freq;
          log_step = (log_max - log_min) / real (unat num_bars)
      in map (log_band bins sample_rate n_fft log_min log_step) [0..<unat num_bars])"

section \<open>Audio capture (\<^verbatim>\<open>src/audio_capture.cpp\<close>, constructor only)\<close>

record AudioConfig =
  sample_rate :: "32 word"
  buffer_frames :: "32 word"
  channels :: "32 word"
  ring_buffer_seconds :: real

text \<open>
  PortAudio is external: whether a default input device exists, whether its device
  info is available and whether the stream opens.
\<close>

record PortAudio =
  default_input_device :: bool
  device_info :: bool
  open_stream :: bool

record AudioCapture =
  audio_config :: AudioConfig
  ring_buffer :: "real RingBuffer"

definition AudioCapture_ctor ::
  "(size_t \<Rightarrow> bool) \<Rightarrow> PortAudio \<Rightarrow> AudioConfig \<Rightarrow> error + AudioCapture" where
  "AudioCapture_ctor alloc pa cfg =
     (let buffer_samples =
            float_to_size_t (ring_buffer_seconds cfg * real (unat (sample_rate cfg))
                               * real (unat (channels cfg)))
      in case RingBuffer_ctor alloc buffer_samples of
           Inl e \<Rightarrow> Inl e
         | Inr rb \<Rightarrow>
             if \<not> default_input_device pa then Inl RuntimeError
             else if \<not> device_info pa then Inl RuntimeError
             else if \<not> open_stream pa then Inl RuntimeError
             else Inr \<lparr>audio_config = cfg, ring_buffer = rb\<rparr>)"

section \<open>Spectrum analyzer (\<^verbatim>\<open>src/spectrum_analyzer.cpp\<close>)\<close>

record AnalyzerConfig =
  num_bands :: size_t
  min_frequency :: real
  max_frequency :: real
  smoothing_factor :: real
  peak_decay_rate :: real
  logarithmic_frequency :: bool

text \<open>The timestamp is the reading of \<^verbatim>\<open>steady_clock::now()\<close>, a parameter of \<open>update\<close>.\<close>

record SpectrumData =
  magnitudes :: "real list"
  peaks :: "real list"
  rms_level :: real
  peak_level :: real
  timestamp :: nat

record SpectrumAnalyzer =
  audio :: AudioCapture
  fft :: FFTProcessor
  analyzer_config :: AnalyzerConfig
  sample_buffer :: "real list"
  magnitude_buffer :: "real list"
  smoothed_magnitudes :: "real list"
  peak_values :: "real list"
  band_bins :: "(size_t \<times> size_t) list"

text \<open>\<^verbatim>\<open>SpectrumAnalyzer::sample_rate()\<close>\<close>

definition analyzer_sample_rate :: "SpectrumAnalyzer \<Rightarrow> real" where
  "analyzer_sample_rate a = real (unat (sample_rate (audio_config (audio a))))"

text \<open>
  \<^verbatim>\<open>recompute_band_mapping\<close>.  In the linear branch the integer division
  \<^verbatim>\<open>bin_count / num_bands\<close> traps for \<^verbatim>\<open>num_bands = 0\<close>.
\<close>

definition recompute_band_mapping :: "SpectrumAnalyzer \<Rightarrow> error + SpectrumAnalyzer" where
  "recompute_band_mapping a =
     (let cfg = analyzer_config a in
      if logarithmic_frequency cfg
      then Inr (a\<lparr>band_bins :=
                   compute_log_bands (bin_count (fft a)) (num_bands cfg) (min_frequency cfg)
                     (max_frequency cfg) (analyzer_sample_rate a) (fft_size (config (fft a)))\<rparr>)
      else if num_bands cfg = 0 then Inl DivisionByZero
      else
        let bins_per_band = bin_count (fft a) div num_bands cfg
        in Inr (a\<lparr>band_bins :=
                   map (\<lambda>i. (of_nat i * bins_per_band,
                              min ((of_nat i + 1) * bins_per_band) (bin_count (fft a))))
                       [0..<unat (num_bands cfg)]\<rparr>))"

definition SpectrumAnalyzer_ctor ::
  "(size_t \<Rightarrow> bool) \<Rightarrow> PortAudio \<Rightarrow> FFTW \<Rightarrow> AudioConfig \<Rightarrow> FFTConfig \<Rightarrow> AnalyzerConfig
     \<Rightarrow> error + SpectrumAnalyzer" where
  "SpectrumAnalyzer_ctor alloc pa fftw audio_cfg fft_cfg an_cfg =
     (case AudioCapture_ctor alloc pa audio_cfg of
        Inl e \<Rightarrow> Inl e
      | Inr au \<Rightarrow>
          (case FFTProcessor_ctor fftw fft_cfg of
             Inl e \<Rightarrow> Inl e
           | Inr p \<Rightarrow>
               recompute_band_mapping
                 \<lparr>audio = au, fft = p, analyzer_config = an_cfg,
                  sample_buffer = resize [] (unat (fft_size (config p))),
                  magnitude_buffer = resize [] (unat (bin_count p)),
                  smoothed_magnitudes = resize [] (unat (num_bands an_cfg)),
                  peak_values = resize [] (unat (num_bands an_cfg)),
                  band_bins = []\<rparr>))"

text \<open>\<^verbatim>\<open>compute_band_magnitude\<close>: the mean of the magnitudes of the band's bins.\<close>

definition compute_band_magnitude :: "SpectrumAnalyzer \<Rightarrow> size_t \<Rightarrow> real" where
  "compute_band_magnitude a band_index =
     (let bin_start = fst (band_bins a ! unat band_index);
          bin_end = snd (band_bins a ! unat band_index)
      in if bin_start \<ge> bin_end then 0
         else fold (\<lambda>i sum. sum + magnitude_buffer a ! i) [unat bin_start..<unat bin_end] 0
                / real (unat (bin_end - bin_start)))"

text \<open>
  One round of the band loop of \<^verbatim>\<open>update\<close> (lines 131 to 148): temporal smoothing,
  peak hold with decay, and the copy into the result.
\<close>

definition band_step ::
  "nat \<Rightarrow> SpectrumAnalyzer \<times> SpectrumData \<Rightarrow> SpectrumAnalyzer \<times> SpectrumData" where
  "band_step i st =
     (let a = fst st; result = snd st;
          raw = compute_band_magnitude a (of_nat i);
          alpha = 1 - smoothing_factor (analyzer_config a);
          a1 = a\<lparr>smoothed_magnitudes := (smoothed_magnitudes a)
                     [i := alpha * raw
                           + smoothing_factor (analyzer_config a) * smoothed_magnitudes a ! i]\<rparr>;
          a2 = (if smoothed_magnitudes a1 ! i > peak_values a1 ! i
                then a1\<lparr>peak_values := (peak_values a1)[i := smoothed_magnitudes a1 ! i]\<rparr>
                else a1\<lparr>peak_values := (peak_values a1)
                           [i := peak_values a1 ! i * peak_decay_rate (analyzer_config a1)]\<rparr>)
      in (a2, result\<lparr>magnitudes := (magnitudes result)[i := smoothed_magnitudes a2 ! i],
                      peaks := (peaks result)[i := peak_values a2 ! i]\<rparr>))"

text \<open>The level loop of \<^verbatim>\<open>update\<close> (lines 116 to 122): sum of squares and peak.\<close>

definition levels :: "real list \<Rightarrow> nat \<Rightarrow> real \<times> real" where
  "levels buf read_count =
     fold (\<lambda>i acc. let s = buf ! i in (fst acc + s * s, max (snd acc) \<bar>s\<bar>))
          [0..<read_count] (0, 0)"

text \<open>
  \<^verbatim>\<open>update()\<close>, run on the state the ring buffer has at the call.  It returns the
  snapshot and the analyzer after the call; the assertion inside \<^verbatim>\<open>compute\<close> is the
  only error.
\<close>

definition update :: "FFTW \<Rightarrow> nat \<Rightarrow> SpectrumAnalyzer \<Rightarrow> error + (SpectrumData \<times> SpectrumAnalyzer)" where
  "update fftw now a =
     (let nb = unat (num_bands (analyzer_config a));
          result = \<lparr>magnitudes = resize [] nb, peaks = resize [] nb,
                    rms_level = 0, peak_level = 0, timestamp = now\<rparr>;
          buf = ring_buffer (audio a);
          avail = rb_size buf;
          needed = fft_size (config (fft a))
      in if avail < needed div 4
         then Inr (result\<lparr>magnitudes := smoothed_magnitudes a, peaks := peak_values a\<rparr>, a)
         else
           let buf1 = (if avail > needed then snd (discard (avail - needed) buf) else buf);
               sbuf = fst (peek (sample_buffer a) buf1);
               read_count = snd (peek (sample_buffer a) buf1);
               lv = levels sbuf (unat read_count);
               result1 = result\<lparr>rms_level := sqrt (fst lv / real (unat read_count)),
                                peak_level := snd lv\<rparr>
           in case compute fftw (take (unat read_count) sbuf) (magnitude_buffer a) (fft a) of
                Inl e \<Rightarrow> Inl e
              | Inr r \<Rightarrow>
                  let a1 = a\<lparr>fft := fst r, sample_buffer := sbuf, magnitude_buffer := fst (snd r)\<rparr>;
                      st = fold band_step [0..<nb] (a1, result1);
                      buf2 = snd (discard read_count buf1)
                  in Inr (snd st, (fst st)\<lparr>audio := (audio (fst st))\<lparr>ring_buffer := buf2\<rparr>\<rparr>))"

section \<open>Closed forms and concrete inputs\<close>

text \<open>The values the two rules give band \<open>i\<close>, from the state before the loop.\<close>

definition smoothed_new :: "SpectrumAnalyzer \<Rightarrow> nat \<Rightarrow> real" where
  "smoothed_new a i =
     (1 - smoothing_factor (analyzer_config a)) * compute_band_magnitude a (of_nat i)
       + smoothing_factor (analyzer_config a) * smoothed_magnitudes a ! i"

definition peak_new :: "SpectrumAnalyzer \<Rightarrow> nat \<Rightarrow> real" where
  "peak_new a i =
     (if smoothed_new a i > peak_values a ! i then smoothed_new a i
      else peak_values a ! i * peak_decay_rate (analyzer_config a))"

text \<open>
  A concrete allocator, the most generous one for \<^verbatim>\<open>RingBuffer<float>\<close> on a 64-bit
  target: an array of \<open>n\<close> floats takes \<open>4 n\<close> bytes, and no object exceeds
  \<^verbatim>\<open>PTRDIFF_MAX\<close> \<open>= 2^63 - 1\<close> bytes (\<^verbatim>\<open>std::bad_array_new_length\<close> beyond that).  A real
  allocator grants less.
\<close>

definition float_alloc :: "size_t \<Rightarrow> bool" where
  "float_alloc n \<longleftrightarrow> unat n * 4 < 2 ^ 63"

text \<open>
  A concrete FFTW for \<open>fft_size = 4\<close>: every allocation and plan succeeds, and the
  transform is the 4-point real-to-complex discrete Fourier transform,
  \<open>X\<^sub>k = \<Sum>\<^sub>j x\<^sub>j exp(-2 \<pi> i j k / 4)\<close> for the bins \<open>k = 0, 1, 2\<close>.
\<close>

definition dft4_fftw :: FFTW where
  "dft4_fftw =
     \<lparr>alloc_real = \<lambda>n. Some (replicate (unat n) 0), alloc_complex = \<lambda>n. True,
      plan_dft_r2c_1d = \<lambda>n. True,
      execute = \<lambda>xs. [(xs ! 0 + xs ! 1 + xs ! 2 + xs ! 3, 0),
                      (xs ! 0 - xs ! 2, xs ! 3 - xs ! 1),
                      (xs ! 0 - xs ! 1 + xs ! 2 - xs ! 3, 0)]\<rparr>"

text \<open>
  A concrete analyzer: ring buffer of capacity 4 with the given storage and write and
  read positions, 4-point FFT with rectangular window and linear magnitudes, one
  logarithmic band over bin 0, smoothing factor 1/2 and peak decay rate 1/4.  \<open>held\<close>
  is the content of the sample buffer and of the FFT input buffer, \<open>mags\<close> the magnitude
  buffer, \<open>x\<close> and \<open>y\<close> the band's smoothed and peak value.
\<close>

definition test_state ::
  "real list \<Rightarrow> size_t \<Rightarrow> size_t \<Rightarrow> real list \<Rightarrow> real list \<Rightarrow> real \<Rightarrow> real \<Rightarrow> SpectrumAnalyzer" where
  "test_state ring w r held mags x y =
     \<lparr>audio = \<lparr>audio_config = \<lparr>sample_rate = 8, buffer_frames = 4, channels = 1,
                                  ring_buffer_seconds = 1 / 2\<rparr>,
               ring_buffer = \<lparr>capacity = 4, mask_f = 3, buffer = ring,
                               write_pos = w, read_pos = r\<rparr>\<rparr>,
      fft = \<lparr>config = \<lparr>fft_size = 4, window = Rectangular, use_magnitude_db = False,
                        db_floor = - 80, db_ceiling = 0\<rparr>,
             input = held, window_v = [1, 1, 1, 1]\<rparr>,
      analyzer_config = \<lparr>num_bands = 1, min_frequency = 1, max_frequency = 2,
                          smoothing_factor = 1 / 2, peak_decay_rate = 1 / 4,
                          logarithmic_frequency = True\<rparr>,
      sample_buffer = held, magnitude_buffer = mags,
      smoothed_magnitudes = [x], peak_values = [y], band_bins = [(0, 1)]\<rparr>"

text \<open>
  The same with silence everywhere: all buffers zero.  \<open>quiet_state 0 0 0 0\<close> is what
  the constructor builds.
\<close>

definition quiet_state :: "size_t \<Rightarrow> size_t \<Rightarrow> real \<Rightarrow> real \<Rightarrow> SpectrumAnalyzer" where
  "quiet_state w r x y = test_state [0, 0, 0, 0] w r [0, 0, 0, 0] [0, 0, 0] x y"

text \<open>
  The audio callback delivering a batch of samples: \<^verbatim>\<open>process_audio\<close> pushes them with
  the span \<^verbatim>\<open>try_push\<close>.
\<close>

definition feed :: "real list \<Rightarrow> SpectrumAnalyzer \<Rightarrow> SpectrumAnalyzer" where
  "feed samples a =
     a\<lparr>audio := (audio a)\<lparr>ring_buffer :=
          snd (try_push_span samples (ring_buffer (audio a)))\<rparr>\<rparr>"

section \<open>Capacity rounding\<close>











lemma npot_wrap: "next_power_of_two (2 ^ 63 + 1) = 0"
  by (simp add: next_power_of_two_def Let_def)


lemma pow2_pos: "k < 64 \<Longrightarrow> (0 :: size_t) < 2 ^ k"
  by (simp add: word_gt_0)

lemma unat_pow2: "k < 64 \<Longrightarrow> unat (2 ^ k :: size_t) = 2 ^ k"
  by (simp add: unat_eq_nat_uint uint_2p word_gt_0)




section \<open>Ring buffer: slots and the class invariant\<close>

lemma nat_and_pred_zero:
  fixes n :: nat
  shows "0 < n \<Longrightarrow> n AND (n - 1) = 0 \<Longrightarrow> \<exists>k. n = 2 ^ k"
proof (induction n rule: less_induct)
  case (less n)
  show ?case
  proof (cases "even n")
    case True
    then obtain m where m: "n = 2 * m" by (elim evenE)
    with less.prems have mpos: "0 < m" by simp
    have "(n - 1) div 2 = m - 1" using m mpos by (cases m) simp_all
    then have "n AND (n - 1) = 2 * (m AND (m - 1))"
      using m by (subst and_nat_rec) simp
    with less.prems have "m AND (m - 1) = 0" by simp
    moreover have "m < n" using m mpos by simp
    ultimately obtain k where "m = 2 ^ k" using less.IH mpos by blast
    then have "n = 2 ^ Suc k" using m by simp
    then show ?thesis by blast
  next
    case False
    then obtain m where m: "n = 2 * m + 1" by (elim oddE)
    have "n AND (n - 1) = 2 * m"
      using m by (subst and_nat_rec) simp
    with less.prems have "m = 0" by simp
    then have "n = 2 ^ 0" using m by simp
    then show ?thesis by blast
  qed
qed

lemma word_pow2_check:
  fixes c :: size_t
  assumes "0 < c" and "c AND (c - 1) = 0"
  shows "\<exists>k<64. c = 2 ^ k"
proof -
  have c0: "c \<noteq> 0" using assms(1) by simp
  have "unat (c AND (c - 1)) = unat c AND (unat c - 1)"
    using c0 by (simp add: unsigned_and_eq unat_minus_one)
  with assms(2) have "unat c AND (unat c - 1) = 0" by simp
  moreover have "0 < unat c" using c0 by (simp add: unat_gt_0)
  ultimately obtain k where k: "unat c = 2 ^ k" using nat_and_pred_zero by blast
  have "unat c < 2 ^ 64" using unsigned_less [of c] by simp
  with k have "(2::nat) ^ k < 2 ^ 64" by simp
  then have k64: "k < 64" by (rule power_less_imp_less_exp [rotated]) simp
  have "c = of_nat (unat c)" by simp
  also have "\<dots> = 2 ^ k" unfolding k by simp
  finally show ?thesis using k64 by blast
qed

lemma slot_eq: "unat ((x :: size_t) AND (2 ^ k - 1)) = unat x mod 2 ^ k"
proof -
  have "x AND (2 ^ k - 1) = take_bit k x"
    by (simp only: take_bit_eq_mask mask_eq_exp_minus_1)
  then have "unat (x AND (2 ^ k - 1)) = take_bit k (unat x)"
    by (simp add: unsigned_take_bit_eq)
  then show ?thesis by (simp add: take_bit_eq_mod)
qed

lemma slot_add:
  assumes "k \<le> 64"
  shows "unat ((r + of_nat i :: size_t) AND (2 ^ k - 1)) = (unat r + i) mod 2 ^ k"
proof -
  have d: "(2::nat) ^ k dvd 2 ^ 64" using assms by (rule le_imp_power_dvd)
  have "unat (r + of_nat i :: size_t) = (unat r + i mod 2 ^ 64) mod 2 ^ 64"
    by (simp add: unat_word_ariths unat_of_nat)
  also have "\<dots> = (unat r + i) mod 2 ^ 64" by (simp add: mod_add_right_eq)
  finally have "unat (r + of_nat i :: size_t) mod 2 ^ k = (unat r + i) mod 2 ^ k"
    using d by (simp add: mod_mod_cancel)
  then show ?thesis by (simp add: slot_eq)
qed

lemma mod_add_inj_le:
  fixes a i j m :: nat
  assumes "i \<le> j" "j < m" "(a + i) mod m = (a + j) mod m"
  shows "i = j"
proof -
  from assms(3) have "(a + j) mod m = (a + i) mod m" by simp
  moreover have "a + i \<le> a + j" using assms(1) by simp
  ultimately obtain q where q: "a + j = a + i + m * q"
    by (rule mod_eq_nat1E)
  then have j: "j = i + m * q" by simp
  have "q = 0"
  proof (rule ccontr)
    assume "q \<noteq> 0"
    then have "m \<le> m * q" by simp
    with j assms(2) show False by linarith
  qed
  with j show ?thesis by simp
qed

lemma mod_add_inj:
  fixes a i j m :: nat
  assumes "i < m" "j < m" "(a + i) mod m = (a + j) mod m"
  shows "i = j"
proof (cases "i \<le> j")
  case True
  then show ?thesis using assms(2,3) by (rule mod_add_inj_le)
next
  case False
  then have "j \<le> i" by simp
  then have "j = i" using assms(1) assms(3) [symmetric] by (rule mod_add_inj_le)
  then show ?thesis by simp
qed

text \<open>Facts that follow from the class invariant.\<close>

lemma rb_inv_pow2:
  assumes "rb_inv rb"
  obtains k where "k < 64" "capacity rb = 2 ^ k" "mask_f rb = 2 ^ k - 1"
    "length (buffer rb) = 2 ^ k" "unat (rb_size rb) \<le> 2 ^ k"
proof -
  from assms have m: "mask_f rb = capacity rb - 1"
    and l: "length (buffer rb) = unat (capacity rb)"
    and s: "rb_size rb \<le> capacity rb"
    by (simp_all add: rb_inv_def rb_size_def)
  from assms have c: "0 < capacity rb" "capacity rb AND (capacity rb - 1) = 0"
    by (auto simp add: rb_inv_def)
  from c obtain k where k: "k < 64" "capacity rb = 2 ^ k"
    using word_pow2_check by blast
  have u: "unat (capacity rb) = 2 ^ k" using k by (simp add: unat_pow2)
  from s have "unat (rb_size rb) \<le> 2 ^ k" unfolding word_le_nat_alt u .
  with k m l u show ?thesis by (intro that [of k]) simp_all
qed

lemma length_contents [simp]: "length (contents rb) = unat (rb_size rb)"
  by (simp add: contents_def)

lemma contents_nth:
  "i < unat (rb_size rb) \<Longrightarrow>
     contents rb ! i = buffer rb ! unat ((read_pos rb + of_nat i) AND mask_f rb)"
  by (simp add: contents_def)

lemma write_pos_eq: "write_pos rb = read_pos rb + of_nat (unat (rb_size rb))"
  by (simp add: rb_size_def)

lemma slot_lt: "unat ((x :: size_t) AND (2 ^ k - 1)) < 2 ^ k"
  by (simp add: slot_eq)

lemma slot_inj:
  assumes "k < 64" "i < 2 ^ k" "j < 2 ^ k"
    and "unat ((r + of_nat i :: size_t) AND (2 ^ k - 1)) = unat ((r + of_nat j) AND (2 ^ k - 1))"
  shows "i = j"
proof -
  from assms(1,4) have "(unat r + i) mod 2 ^ k = (unat r + j) mod 2 ^ k"
    by (simp add: slot_add)
  with assms(2,3) show ?thesis by (rule mod_add_inj)
qed

lemma pow2_le_63: "k < 64 \<Longrightarrow> (2::nat) ^ k \<le> 2 ^ 63"
  by (rule power_increasing) simp_all

lemma unat_Suc_small:
  fixes x :: size_t
  assumes "k < 64" "unat x < 2 ^ k"
  shows "unat (x + 1) = Suc (unat x)"
proof -
  have "unat x + unat (1 :: size_t) < 2 ^ LENGTH(64)"
    using pow2_le_63 [OF assms(1)] assms(2) by simp
  then have "unat (x + 1) = unat x + unat (1 :: size_t)"
    by (simp only: unat_add_lem)
  then show ?thesis by simp
qed

lemma contents_push:
  fixes v :: 'a and rb :: "'a RingBuffer"
  assumes inv: "rb_inv rb" and nf: "rb_size rb < capacity rb"
  defines "rb' \<equiv> rb\<lparr>buffer := (buffer rb)[unat (write_pos rb AND mask_f rb) := v],
                     write_pos := write_pos rb + 1\<rparr>"
  shows "rb_inv rb' \<and> contents rb' = contents rb @ [v] \<and> rb_size rb' = rb_size rb + 1"
proof -
  obtain k where k: "k < 64" "capacity rb = 2 ^ k" "mask_f rb = 2 ^ k - 1"
    "length (buffer rb) = 2 ^ k" "unat (rb_size rb) \<le> 2 ^ k"
    using inv by (rule rb_inv_pow2)
  define n where "n = unat (rb_size rb)"
  have n: "n < 2 ^ k" using nf by (simp add: n_def word_less_nat_alt k(2) unat_pow2 k(1))
  have sz: "rb_size rb' = rb_size rb + 1" by (simp add: rb'_def rb_size_def)
  have usz: "unat (rb_size rb') = Suc n"
    unfolding sz n_def using k(1) n [unfolded n_def] by (rule unat_Suc_small)
  have "rb_size rb' \<le> capacity rb"
    using n by (simp add: word_le_nat_alt usz k(2) unat_pow2 k(1))
  then have inv': "rb_inv rb'"
    using inv by (auto simp add: rb_inv_def rb'_def rb_size_def)
  have wp: "write_pos rb = read_pos rb + of_nat n"
    by (simp add: n_def rb_size_def)
  have c: "contents rb' = contents rb @ [v]"
  proof (rule nth_equalityI)
    show "length (contents rb') = length (contents rb @ [v])" by (simp add: usz n_def)
  next
    fix i assume "i < length (contents rb')"
    then have i: "i < Suc n" by (simp add: usz)
    then have "contents rb' ! i = buffer rb' ! unat ((read_pos rb' + of_nat i) AND mask_f rb')"
      by (simp add: contents_nth usz)
    then have L: "contents rb' ! i =
        (buffer rb)[unat ((read_pos rb + of_nat n) AND (2 ^ k - 1)) := v] !
          unat ((read_pos rb + of_nat i) AND (2 ^ k - 1))"
      by (simp add: rb'_def wp k(3))
    show "contents rb' ! i = (contents rb @ [v]) ! i"
    proof (cases "i = n")
      case True
      then show ?thesis unfolding L by (simp add: nth_append slot_lt k(4) n_def)
    next
      case False
      with i have lt: "i < n" by simp
      have "unat ((read_pos rb + of_nat n) AND (2 ^ k - 1))
              \<noteq> unat ((read_pos rb + of_nat i) AND (2 ^ k - 1))"
        using slot_inj [OF k(1) n, of i "read_pos rb"] lt n False by auto
      then show ?thesis unfolding L using lt
        by (simp add: nth_append contents_nth k(3) n_def [symmetric])
    qed
  qed
  from inv' c sz show ?thesis by simp
qed

lemma try_push_ok:
  assumes "rb_inv rb" and "rb_size rb < capacity rb"
  shows "fst (try_push v rb) \<and> rb_inv (snd (try_push v rb))
         \<and> contents (snd (try_push v rb)) = contents rb @ [v]
         \<and> rb_size (snd (try_push v rb)) = rb_size rb + 1"
proof -
  from assms(2) have "\<not> capacity rb \<le> write_pos rb - read_pos rb"
    by (simp add: rb_size_def not_le)
  then show ?thesis
    using contents_push [OF assms, of v] by (simp add: try_push_def Let_def)
qed

lemma try_push_full:
  assumes "\<not> rb_size rb < capacity rb"
  shows "try_push v rb = (False, rb)"
  using assms by (simp add: try_push_def Let_def rb_size_def not_less)

section \<open>Ring buffer: consumer operations\<close>

lemma unat_of_nat_le:
  fixes x :: size_t
  assumes "m \<le> unat x"
  shows "unat (of_nat m :: size_t) = m" and "(of_nat m :: size_t) \<le> x"
proof -
  have "unat x < 2 ^ 64" using unsigned_less [of x] by simp
  with assms have "m < 2 ^ 64" by simp
  then show u: "unat (of_nat m :: size_t) = m" by (simp add: unat_of_nat)
  show "(of_nat m :: size_t) \<le> x" using assms by (simp add: word_le_nat_alt u)
qed

lemma contents_advance:
  fixes rb :: "'a RingBuffer"
  assumes inv: "rb_inv rb" and m: "m \<le> unat (rb_size rb)"
  defines "rb' \<equiv> rb\<lparr>read_pos := read_pos rb + of_nat m\<rparr>"
  shows "rb_inv rb' \<and> contents rb' = drop m (contents rb)
         \<and> unat (rb_size rb') = unat (rb_size rb) - m"
proof -
  have sz: "rb_size rb' = rb_size rb - of_nat m" by (simp add: rb'_def rb_size_def)
  have usz: "unat (rb_size rb') = unat (rb_size rb) - m"
    unfolding sz using unat_of_nat_le [OF m] by (simp add: unat_sub)
  have "rb_size rb \<le> capacity rb" using inv by (simp add: rb_inv_def rb_size_def)
  then have "rb_size rb' \<le> capacity rb"
    using usz by (simp add: word_le_nat_alt)
  then have inv': "rb_inv rb'"
    using inv by (auto simp add: rb_inv_def rb'_def rb_size_def)
  have c: "contents rb' = drop m (contents rb)"
  proof (rule nth_equalityI)
    show "length (contents rb') = length (drop m (contents rb))" by (simp add: usz)
  next
    fix i assume "i < length (contents rb')"
    then have i: "i < unat (rb_size rb) - m" by (simp add: usz)
    then have "m + i < unat (rb_size rb)" by simp
    then have "drop m (contents rb) ! i
        = buffer rb ! unat ((read_pos rb + of_nat (m + i)) AND mask_f rb)"
      using m by (simp add: contents_nth)
    moreover have "contents rb' ! i
        = buffer rb ! unat ((read_pos rb + of_nat m + of_nat i) AND mask_f rb)"
      using i by (simp add: contents_nth usz) (simp add: rb'_def)
    ultimately show "contents rb' ! i = drop m (contents rb) ! i"
      by (simp add: add.assoc)
  qed
  from inv' c usz show ?thesis by simp
qed

lemma try_pop_fail:
  assumes "\<not> read_pos rb < write_pos rb"
  shows "try_pop out rb = (False, out, rb)"
  using assms by (simp add: try_pop_def Let_def not_less)

lemma try_pop_ok:
  fixes rb :: "'a RingBuffer"
  assumes inv: "rb_inv rb" and lt: "read_pos rb < write_pos rb"
  shows "contents rb \<noteq> [] \<and> fst (try_pop out rb) \<and> fst (snd (try_pop out rb)) = hd (contents rb)
         \<and> rb_inv (snd (snd (try_pop out rb)))
         \<and> contents (snd (snd (try_pop out rb))) = tl (contents rb)
         \<and> snd (snd (try_pop out rb)) = rb\<lparr>read_pos := read_pos rb + 1\<rparr>"
proof -
  from lt have "rb_size rb \<noteq> 0" by (auto simp add: rb_size_def)
  then have pos: "1 \<le> unat (rb_size rb)" by (simp add: unat_gt_0 Suc_le_eq)
  then have ne: "contents rb \<noteq> []" by (auto simp add: length_0_conv [symmetric] simp del: length_0_conv)
  have e: "try_pop out rb = (True, buffer rb ! unat (read_pos rb AND mask_f rb),
                             rb\<lparr>read_pos := read_pos rb + 1\<rparr>)"
    using lt by (simp add: try_pop_def Let_def not_le)
  have h: "hd (contents rb) = buffer rb ! unat (read_pos rb AND mask_f rb)"
    using pos contents_nth [of 0 rb] ne by (simp add: hd_conv_nth)
  from contents_advance [OF inv pos] show ?thesis
    by (simp add: e h ne drop_Suc)
qed

lemma copy_out_eq:
  "m \<le> length out \<Longrightarrow>
     copy_out rb r m out
       = map (\<lambda>i. buffer rb ! unat ((r + of_nat i) AND mask_f rb)) [0..<m] @ drop m out"
proof (induction m)
  case 0
  then show ?case by (simp add: copy_out_def)
next
  case (Suc m)
  then have IH: "copy_out rb r m out
       = map (\<lambda>i. buffer rb ! unat ((r + of_nat i) AND mask_f rb)) [0..<m] @ drop m out"
    by simp
  have "copy_out rb r (Suc m) out
          = (copy_out rb r m out)[m := buffer rb ! unat ((r + of_nat m) AND mask_f rb)]"
    by (simp add: copy_out_def)
  also have "\<dots> = map (\<lambda>i. buffer rb ! unat ((r + of_nat i) AND mask_f rb)) [0..<m]
        @ (drop m out)[0 := buffer rb ! unat ((r + of_nat m) AND mask_f rb)]"
    unfolding IH by (simp add: list_update_append)
  also have "(drop m out)[0 := buffer rb ! unat ((r + of_nat m) AND mask_f rb)]
        = buffer rb ! unat ((r + of_nat m) AND mask_f rb) # drop (Suc m) out"
    using Suc.prems by (simp add: Cons_nth_drop_Suc [symmetric])
  finally show ?case by simp
qed

lemma take_contents:
  "m \<le> unat (rb_size rb) \<Longrightarrow>
     take m (contents rb)
       = map (\<lambda>i. buffer rb ! unat ((read_pos rb + of_nat i) AND mask_f rb)) [0..<m]"
  by (simp add: contents_def take_map)

lemma unat_span_size_le: "unat (span_size xs) \<le> length xs"
  by (simp add: span_size_def unat_of_nat)

lemma try_pop_span_ok:
  fixes rb :: "'a RingBuffer" and out :: "'a list"
  assumes inv: "rb_inv rb"
  defines "m \<equiv> unat (min (rb_size rb) (span_size out))"
  shows "try_pop_span out rb
           = (take m (contents rb) @ drop m out, of_nat m, rb\<lparr>read_pos := read_pos rb + of_nat m\<rparr>)
         \<and> rb_inv (rb\<lparr>read_pos := read_pos rb + of_nat m\<rparr>)
         \<and> contents (rb\<lparr>read_pos := read_pos rb + of_nat m\<rparr>) = drop m (contents rb)
         \<and> m \<le> length out \<and> m \<le> unat (rb_size rb)"
proof -
  have m1: "m \<le> unat (rb_size rb)"
    by (simp add: m_def min_def word_le_nat_alt)
  have "m \<le> unat (span_size out)"
    by (simp add: m_def min_def word_le_nat_alt)
  then have m2: "m \<le> length out" using unat_span_size_le [of out] by simp
  have "try_pop_span out rb
          = (copy_out rb (read_pos rb) m out, of_nat m, rb\<lparr>read_pos := read_pos rb + of_nat m\<rparr>)"
    by (simp add: try_pop_span_def Let_def m_def rb_size_def)
  then show ?thesis
    using contents_advance [OF inv m1] m1 m2
    by (simp add: copy_out_eq take_contents)
qed

section \<open>Ring buffer: FIFO order\<close>

lemma rb_size_lt_capacity:
  assumes "rb_inv rb" and "length (contents rb) < unat (capacity rb)"
  shows "rb_size rb < capacity rb"
  using assms(2) by (simp add: word_less_nat_alt)

text \<open>The state of the span push after \<open>j\<close> rounds of its loop.\<close>

lemma push_loop_inv:
  fixes rb :: "'a RingBuffer" and d :: "'a list"
  assumes inv: "rb_inv rb"
    and j: "unat (rb_size rb) + j \<le> unat (capacity rb)" "j \<le> length d"
  defines "st \<equiv> \<lambda>j. rb\<lparr>buffer := fold (\<lambda>i b. b[unat ((write_pos rb + of_nat i) AND mask_f rb) := d ! i])
                                      [0..<j] (buffer rb),
                        write_pos := write_pos rb + of_nat j\<rparr>"
  shows "rb_inv (st j) \<and> contents (st j) = contents rb @ take j d"
  using j
proof (induction j)
  case 0
  have "st 0 = rb" by (simp add: st_def)
  with inv show ?case by simp
next
  case (Suc j)
  then have IH: "rb_inv (st j)" "contents (st j) = contents rb @ take j d" by simp_all
  have "length (contents (st j)) = unat (rb_size rb) + j"
    unfolding IH(2) using Suc.prems by simp
  then have "length (contents (st j)) < unat (capacity rb)" using Suc.prems by simp
  moreover have "capacity (st j) = capacity rb" by (simp add: st_def)
  ultimately have nf: "rb_size (st j) < capacity (st j)"
    using rb_size_lt_capacity [OF IH(1)] by simp
  have "st (Suc j) = (st j)\<lparr>buffer := (buffer (st j))[unat (write_pos (st j) AND mask_f (st j)) := d ! j],
                             write_pos := write_pos (st j) + 1\<rparr>"
    by (simp add: st_def add.assoc)
  with contents_push [OF IH(1) nf, of "d ! j"]
  have "rb_inv (st (Suc j))" "contents (st (Suc j)) = contents (st j) @ [d ! j]" by simp_all
  moreover have "take (Suc j) d = take j d @ [d ! j]"
    using Suc.prems by (simp add: take_Suc_conv_app_nth)
  ultimately show ?case by (simp add: IH(2))
qed

lemma try_push_span_ok:
  fixes rb :: "'a RingBuffer" and d :: "'a list"
  assumes inv: "rb_inv rb"
  defines "m \<equiv> unat (min (capacity rb - rb_size rb) (span_size d))"
  shows "fst (try_push_span d rb) = of_nat m \<and> unat (fst (try_push_span d rb)) = m
         \<and> rb_inv (snd (try_push_span d rb))
         \<and> contents (snd (try_push_span d rb)) = contents rb @ take m d"
proof -
  have le: "rb_size rb \<le> capacity rb" using inv by (simp add: rb_inv_def rb_size_def)
  have "m \<le> unat (capacity rb - rb_size rb)"
    by (simp add: m_def min_def word_le_nat_alt)
  then have m1: "unat (rb_size rb) + m \<le> unat (capacity rb)"
    using le by (simp add: unat_sub word_le_nat_alt)
  have "m \<le> unat (span_size d)"
    by (simp add: m_def min_def word_le_nat_alt)
  then have m2: "m \<le> length d" using unat_span_size_le [of d] by simp
  have "try_push_span d rb = (of_nat m,
      rb\<lparr>buffer := fold (\<lambda>i b. b[unat ((write_pos rb + of_nat i) AND mask_f rb) := d ! i])
                                      [0..<m] (buffer rb),
                        write_pos := write_pos rb + of_nat m\<rparr>)"
    by (simp add: try_push_span_def Let_def m_def rb_size_def)
  then show ?thesis
    using push_loop_inv [OF inv m1 m2] by (simp add: m_def)
qed

lemma step_inv:
  fixes rb :: "'a RingBuffer"
  assumes "rb_inv rb" and "pushed = popped @ contents rb"
    and "step opn (pushed, popped, rb) = (pushed', popped', rb')"
  shows "rb_inv rb' \<and> pushed' = popped' @ contents rb'"
proof (cases opn)
  case (Push v)
  show ?thesis
  proof (cases "rb_size rb < capacity rb")
    case True
    from try_push_ok [OF assms(1) True, of v] assms(2,3) Push show ?thesis
      by (auto simp add: split_beta)
  next
    case False
    from try_push_full [OF False, of v] assms Push show ?thesis by auto
  qed
next
  case (PushSpan d)
  from try_push_span_ok [OF assms(1), of d] assms(2,3) PushSpan show ?thesis
    by (auto simp add: split_beta)
next
  case (Pop out)
  show ?thesis
  proof (cases "read_pos rb < write_pos rb")
    case True
    from try_pop_ok [OF assms(1) True, of out] assms(2,3) Pop show ?thesis
      by (auto simp add: split_beta)
  next
    case False
    from try_pop_fail [OF False, of out] assms Pop show ?thesis by auto
  qed
next
  case (PopSpan out)
  from try_pop_span_ok [OF assms(1), of out] assms(2,3) PopSpan show ?thesis
    by (auto simp add: split_beta unat_of_nat_le)
qed

lemma fold_step_inv:
  fixes rb :: "'a RingBuffer"
  shows "rb_inv rb \<Longrightarrow> pushed = popped @ contents rb \<Longrightarrow>
     fold step ops (pushed, popped, rb) = (pushed', popped', rb') \<Longrightarrow>
     rb_inv rb' \<and> pushed' = popped' @ contents rb'"
proof (induction ops arbitrary: pushed popped rb)
  case Nil
  then show ?case by auto
next
  case (Cons opn ops)
  obtain p1 q1 rb1 where s: "step opn (pushed, popped, rb) = (p1, q1, rb1)"
    by (cases "step opn (pushed, popped, rb)") auto
  from step_inv [OF Cons.prems(1,2) s] have "rb_inv rb1" "p1 = q1 @ contents rb1" by simp_all
  moreover from Cons.prems(3) s have "fold step ops (p1, q1, rb1) = (pushed', popped', rb')"
    by simp
  ultimately show ?case by (rule Cons.IH)
qed

lemma ctor_inv:
  assumes "RingBuffer_ctor alloc n = Inr rb"
  shows "rb_inv rb \<and> contents rb = [] \<and> read_pos rb = 0 \<and> write_pos rb = 0
         \<and> capacity rb = next_power_of_two n"
  using assms
  by (auto simp add: RingBuffer_ctor_def Let_def rb_inv_def contents_def rb_size_def
      split: if_splits)

text \<open>
  Claim C4.  Start from a freshly constructed buffer and run any sequence of
  \<^verbatim>\<open>try_push\<close> and \<^verbatim>\<open>try_pop\<close> calls (single element or span), one after the
  other.  The values the pops returned, in order, are a prefix of the values the pushes
  accepted, in order.
\<close>

theorem fifo_prefix:
  fixes rb0 :: "('a::zero) RingBuffer"
  assumes "RingBuffer_ctor alloc n = Inr rb0" and "run ops rb0 = (pushed, popped, rb)"
  shows "prefix popped pushed"
proof -
  from ctor_inv [OF assms(1)] have "rb_inv rb0" "[] = [] @ contents rb0" by simp_all
  moreover from assms(2) have "fold step ops ([], [], rb0) = (pushed, popped, rb)"
    by (simp add: run_def)
  ultimately have "pushed = popped @ contents rb" using fold_step_inv by blast
  then show ?thesis by simp
qed

theorem fifo_prefix_witness:
  "(RingBuffer_ctor float_alloc 4 :: error + int RingBuffer)
     = Inr \<lparr>capacity = 4, mask_f = 3, buffer = [0, 0, 0, 0], write_pos = 0, read_pos = 0\<rparr>
   \<and> run [Push 1, Push 2, Push 3, Push 4, Push 5, Pop 0, Pop 0, PushSpan [10, 11, 12],
            PopSpan [0, 0, 0], Pop 0, Pop 0, Pop 0]
          \<lparr>capacity = 4, mask_f = 3, buffer = [0, 0, 0, 0 :: int], write_pos = 0, read_pos = 0\<rparr>
     = ([1, 2, 3, 4, 10, 11], [1, 2, 3, 4, 10, 11],
        \<lparr>capacity = 4, mask_f = 3, buffer = [10, 11, 3, 4], write_pos = 6, read_pos = 6\<rparr>)
   \<and> prefix [1, 2, 3, 4, 10, 11 :: int] [1, 2, 3, 4, 10, 11]"
proof -
  have c: "(RingBuffer_ctor float_alloc 4 :: error + int RingBuffer)
     = Inr \<lparr>capacity = 4, mask_f = 3, buffer = [0, 0, 0, 0], write_pos = 0, read_pos = 0\<rparr>"
  proof -
    have np: "next_power_of_two 4 = 4" by (simp add: next_power_of_two_def Let_def)
    have r4: "replicate 4 (0 :: int) = [0, 0, 0, 0]" by (simp add: numeral_eq_Suc)
    show ?thesis by (simp add: RingBuffer_ctor_def float_alloc_def Let_def np r4)
  qed
  have r: "run [Push 1, Push 2, Push 3, Push 4, Push 5, Pop 0, Pop 0, PushSpan [10, 11, 12],
            PopSpan [0, 0, 0], Pop 0, Pop 0, Pop 0]
          \<lparr>capacity = 4, mask_f = 3, buffer = [0, 0, 0, 0 :: int], write_pos = 0, read_pos = 0\<rparr>
     = ([1, 2, 3, 4, 10, 11], [1, 2, 3, 4, 10, 11],
        \<lparr>capacity = 4, mask_f = 3, buffer = [10, 11, 3, 4], write_pos = 6, read_pos = 6\<rparr>)"
    by (simp add: run_def try_push_def try_pop_def try_push_span_def try_pop_span_def
        copy_out_def span_size_def Let_def upt_rec word_le_nat_alt word_less_nat_alt)
  from fifo_prefix [OF c r] c r show ?thesis by simp
qed

section \<open>Ring buffer: overwriting push\<close>

lemma unat_Suc_le:
  fixes x :: size_t
  assumes "unat x \<le> 2 ^ 63"
  shows "unat (x + 1) = Suc (unat x)"
proof -
  have "unat x + unat (1 :: size_t) < 2 ^ LENGTH(64)"
    using assms by simp
  then have "unat (x + 1) = unat x + unat (1 :: size_t)"
    by (simp only: unat_add_lem)
  then show ?thesis by simp
qed

lemma full_iff: "full rb \<longleftrightarrow> length (contents rb) = unat (capacity rb)"
  by (simp add: full_def word_unat_eq_iff)

lemma push_overwrite_not_full:
  fixes rb :: "'a RingBuffer"
  assumes inv: "rb_inv rb" and nf: "\<not> full rb"
  shows "rb_inv (push_overwrite v rb) \<and> contents (push_overwrite v rb) = contents rb @ [v]
         \<and> read_pos (push_overwrite v rb) = read_pos rb
         \<and> write_pos (push_overwrite v rb) = write_pos rb + 1"
proof -
  have "rb_size rb \<le> capacity rb" using inv by (simp add: rb_inv_def rb_size_def)
  with nf have lt: "rb_size rb < capacity rb" by (simp add: full_def)
  let ?rb1 = "rb\<lparr>buffer := (buffer rb)[unat (write_pos rb AND mask_f rb) := v],
                  write_pos := write_pos rb + 1\<rparr>"
  from contents_push [OF inv lt, of v]
  have 1: "rb_inv ?rb1" "contents ?rb1 = contents rb @ [v]" by simp_all
  then have "write_pos rb + 1 - read_pos rb \<le> capacity rb"
    by (simp add: rb_inv_def)
  then have "push_overwrite v rb = ?rb1"
    by (simp add: push_overwrite_def Let_def not_less)
  with 1 show ?thesis by simp
qed

lemma push_overwrite_full:
  fixes rb :: "'a RingBuffer"
  assumes inv: "rb_inv rb" and f: "full rb"
  shows "rb_inv (push_overwrite v rb) \<and> contents (push_overwrite v rb) = tl (contents rb) @ [v]
         \<and> read_pos (push_overwrite v rb) = read_pos rb + 1
         \<and> write_pos (push_overwrite v rb) = write_pos rb + 1
         \<and> full (push_overwrite v rb)"
proof -
  obtain k where k: "k < 64" "capacity rb = 2 ^ k" "mask_f rb = 2 ^ k - 1"
    "length (buffer rb) = 2 ^ k" "unat (rb_size rb) \<le> 2 ^ k"
    using inv by (rule rb_inv_pow2)
  have sz: "rb_size rb = 2 ^ k" using f k(2) by (simp add: full_def)
  have usz: "unat (rb_size rb) = 2 ^ k" unfolding sz using k(1) by (rule unat_pow2)
  have ucap: "unat (capacity rb) = 2 ^ k" unfolding k(2) using k(1) by (rule unat_pow2)
  have "write_pos rb = read_pos rb + rb_size rb" by (simp add: rb_size_def)
  then have wp: "write_pos rb = read_pos rb + 2 ^ k" by (simp only: sz)
  let ?rbp = "rb\<lparr>read_pos := read_pos rb + 1\<rparr>"
  have one: "1 \<le> unat (rb_size rb)" by (simp add: usz)
  from contents_advance [OF inv one]
  have p: "rb_inv ?rbp" "contents ?rbp = tl (contents rb)" "unat (rb_size ?rbp) = 2 ^ k - 1"
    by (simp_all add: drop_Suc usz)
  have "rb_size ?rbp < capacity ?rbp"
    by (simp only: word_less_nat_alt p(3)) (simp add: ucap)
  from contents_push [OF p(1) this, of v]
  have q: "rb_inv (?rbp\<lparr>buffer := (buffer ?rbp)[unat (write_pos ?rbp AND mask_f ?rbp) := v],
                     write_pos := write_pos ?rbp + 1\<rparr>)"
    "contents (?rbp\<lparr>buffer := (buffer ?rbp)[unat (write_pos ?rbp AND mask_f ?rbp) := v],
                     write_pos := write_pos ?rbp + 1\<rparr>) = tl (contents rb) @ [v]"
    by (simp_all add: p(2))
  have "unat (2 ^ k + 1 :: size_t) = Suc (2 ^ k)"
    using unat_Suc_le [of "2 ^ k"] pow2_le_63 [OF k(1)] by (simp add: unat_pow2 k(1))
  then have gt: "capacity rb < write_pos rb + 1 - read_pos rb"
    by (simp add: word_less_nat_alt wp k(2) unat_pow2 [OF k(1)])
  have e: "push_overwrite v rb =
      ?rbp\<lparr>buffer := (buffer ?rbp)[unat (write_pos ?rbp AND mask_f ?rbp) := v],
                     write_pos := write_pos ?rbp + 1\<rparr>"
    using gt by (simp add: push_overwrite_def Let_def wp k(2))
  have "length (contents (push_overwrite v rb)) = unat (capacity rb)"
    unfolding e q(2) by (simp add: usz ucap)
  then have "full (push_overwrite v rb)"
    by (simp add: full_iff e)
  with q show ?thesis unfolding e by simp
qed

lemma try_push_frame:
  "read_pos (snd (try_push v rb)) = read_pos rb \<and> capacity (snd (try_push v rb)) = capacity rb
   \<and> write_pos (snd (try_push v rb)) = (if fst (try_push v rb) then write_pos rb + 1 else write_pos rb)"
  by (simp add: try_push_def Let_def)

lemma push_overwrite_capacity: "capacity (push_overwrite v rb) = capacity rb"
  by (simp add: push_overwrite_def Let_def)

lemma contents_Nil_iff: "contents rb = [] \<longleftrightarrow> unat (rb_size rb) = 0"
  by (simp add: contents_def)

lemma fill_pushes:
  fixes rb :: "'a RingBuffer"
  shows "rb_inv rb \<Longrightarrow> length (contents rb) + length vs \<le> unat (capacity rb) \<Longrightarrow>
     \<exists>rb'. fold step (map Push vs) (ps, qs, rb) = (ps @ vs, qs, rb') \<and> rb_inv rb'
       \<and> contents rb' = contents rb @ vs \<and> read_pos rb' = read_pos rb
       \<and> write_pos rb' = write_pos rb + of_nat (length vs) \<and> capacity rb' = capacity rb"
proof (induction vs arbitrary: ps rb)
  case Nil
  then show ?case by simp
next
  case (Cons v vs)
  from Cons.prems have "length (contents rb) < unat (capacity rb)" by simp
  with Cons.prems(1) have lt: "rb_size rb < capacity rb" by (rule rb_size_lt_capacity)
  let ?rb1 = "snd (try_push v rb)"
  from try_push_ok [OF Cons.prems(1) lt, of v]
  have ok: "fst (try_push v rb)" "rb_inv ?rb1" "contents ?rb1 = contents rb @ [v]"
    by simp_all
  from try_push_frame [of v rb] ok(1)
  have fr: "read_pos ?rb1 = read_pos rb" "capacity ?rb1 = capacity rb"
    "write_pos ?rb1 = write_pos rb + 1" by simp_all
  have "length (contents ?rb1) + length vs \<le> unat (capacity ?rb1)"
    using Cons.prems(2) by (simp only: ok(3) fr(2)) simp
  from Cons.IH [OF ok(2) this, of "ps @ [v]"] obtain rb' where
    r: "fold step (map Push vs) (ps @ [v], qs, ?rb1) = ((ps @ [v]) @ vs, qs, rb')" "rb_inv rb'"
       "contents rb' = contents ?rb1 @ vs" "read_pos rb' = read_pos ?rb1"
       "write_pos rb' = write_pos ?rb1 + of_nat (length vs)" "capacity rb' = capacity ?rb1"
    by blast
  have s: "step (Push v) (ps, qs, rb) = (ps @ [v], qs, ?rb1)"
    using ok(1) by (simp add: split_beta)
  have "fold step (map Push (v # vs)) (ps, qs, rb) = (ps @ v # vs, qs, rb')"
    using r(1) by (simp add: s del: step.simps)
  with r(2-6) show ?case by (simp add: ok(3) fr)
qed

lemma overwrites:
  fixes rb :: "'a RingBuffer"
  shows "rb_inv rb \<Longrightarrow> full rb \<Longrightarrow>
     rb_inv (fold push_overwrite ws rb) \<and> full (fold push_overwrite ws rb)
     \<and> contents (fold push_overwrite ws rb) = drop (length ws) (contents rb @ ws)
     \<and> read_pos (fold push_overwrite ws rb) = read_pos rb + of_nat (length ws)
     \<and> write_pos (fold push_overwrite ws rb) = write_pos rb + of_nat (length ws)
     \<and> capacity (fold push_overwrite ws rb) = capacity rb"
proof (induction ws arbitrary: rb)
  case Nil
  then show ?case by simp
next
  case (Cons v ws)
  let ?rb1 = "push_overwrite v rb"
  from push_overwrite_full [OF Cons.prems, of v]
  have 1: "rb_inv ?rb1" "contents ?rb1 = tl (contents rb) @ [v]" "read_pos ?rb1 = read_pos rb + 1"
    "write_pos ?rb1 = write_pos rb + 1" "full ?rb1" by simp_all
  have "0 < capacity rb" using Cons.prems(1) by (simp add: rb_inv_def)
  then have "0 < unat (capacity rb)" by (simp add: word_less_nat_alt)
  with Cons.prems(2) have "contents rb \<noteq> []" by (simp add: full_iff contents_Nil_iff)
  then have d: "drop (Suc (length ws)) (contents rb @ v # ws)
                  = drop (length ws) (tl (contents rb) @ [v] @ ws)"
    by (cases "contents rb") simp_all
  from Cons.IH [OF 1(1) 1(5)]
  have ih: "rb_inv (fold push_overwrite ws ?rb1)" "full (fold push_overwrite ws ?rb1)"
    "contents (fold push_overwrite ws ?rb1) = drop (length ws) (contents ?rb1 @ ws)"
    "read_pos (fold push_overwrite ws ?rb1) = read_pos ?rb1 + of_nat (length ws)"
    "write_pos (fold push_overwrite ws ?rb1) = write_pos ?rb1 + of_nat (length ws)"
    "capacity (fold push_overwrite ws ?rb1) = capacity ?rb1"
    by simp_all
  have "contents (fold push_overwrite ws ?rb1) = drop (length ws) (tl (contents rb) @ [v] @ ws)"
    by (simp only: ih(3) 1(2) append_assoc)
  also have "\<dots> = drop (Suc (length ws)) (contents rb @ v # ws)"
    by (rule d [symmetric])
  finally have c: "contents (fold push_overwrite ws ?rb1)
                  = drop (length (v # ws)) (contents rb @ v # ws)"
    by (simp only: length_Cons)
  show ?case
    using ih(1,2) by (simp add: c ih(4,5,6) 1(3,4) push_overwrite_capacity del: drop_append)
qed

lemma pops_all:
  fixes rb :: "'a RingBuffer"
  shows "rb_inv rb \<Longrightarrow> unat (read_pos rb) + length (contents rb) < 2 ^ 64 \<Longrightarrow>
     n = length (contents rb) \<Longrightarrow>
     pops n out rb = (map (Pair True) (contents rb), rb\<lparr>read_pos := write_pos rb\<rparr>)"
proof (induction n arbitrary: rb out)
  case 0
  then have "rb_size rb = 0" by (simp add: unat_eq_0)
  then have "write_pos rb = read_pos rb" by (simp add: rb_size_def)
  with 0 show ?case by (simp add: contents_Nil_iff)
next
  case (Suc n)
  have "write_pos rb = read_pos rb + rb_size rb" by (simp add: rb_size_def)
  moreover have "unat (read_pos rb) + unat (rb_size rb) < 2 ^ LENGTH(64)"
    using Suc.prems(2) by simp
  ultimately have uw: "unat (write_pos rb) = unat (read_pos rb) + unat (rb_size rb)"
    by (simp only: unat_add_lem)
  with Suc.prems(3) have lt: "read_pos rb < write_pos rb"
    by (simp add: word_less_nat_alt)
  let ?rb1 = "rb\<lparr>read_pos := read_pos rb + 1\<rparr>"
  from try_pop_ok [OF Suc.prems(1) lt, of out]
  have 1: "contents rb \<noteq> []" "try_pop out rb = (True, hd (contents rb), ?rb1)"
    "rb_inv ?rb1" "contents ?rb1 = tl (contents rb)"
    by (auto simp add: prod_eq_iff)
  have "unat (read_pos rb) + unat (1 :: size_t) < 2 ^ LENGTH(64)"
    using Suc.prems(2,3) by simp
  then have "unat (read_pos rb + 1) = unat (read_pos rb) + unat (1 :: size_t)"
    by (simp only: unat_add_lem)
  then have "unat (read_pos ?rb1) + length (contents ?rb1) < 2 ^ 64"
    using Suc.prems(2,3) by (simp only: 1(4)) simp
  moreover have "n = length (contents ?rb1)" using Suc.prems(3) by (simp only: 1(4)) simp
  ultimately have "pops n (hd (contents rb)) ?rb1
      = (map (Pair True) (contents ?rb1), ?rb1\<lparr>read_pos := write_pos ?rb1\<rparr>)"
    using 1(3) by (intro Suc.IH)
  then show ?case using 1(1) by (simp add: 1(2) 1(4) del: length_contents) (cases "contents rb"; simp)
qed

text \<open>
  Claim C6.  Take an empty buffer of capacity \<open>C\<close> that satisfies the class invariant,
  fill it with \<open>C\<close> values \<open>vs\<close> by \<^verbatim>\<open>try_push\<close> and call \<^verbatim>\<open>push_overwrite\<close> once
  for each value of \<open>ws\<close>.  Then every push was accepted and the buffer was full; the
  buffer still holds \<open>C\<close> values; every single \<^verbatim>\<open>push_overwrite\<close> advanced
  \<^verbatim>\<open>read_pos\<close> by one; a span \<^verbatim>\<open>try_pop\<close> of \<open>C\<close> elements returns the last
  \<open>C\<close> values pushed, in order; and so do \<open>C\<close> successive single-element
  \<^verbatim>\<open>try_pop\<close> calls, as long as the 64-bit \<^verbatim>\<open>write_pos\<close> counter has not wrapped
  around (the single-element \<^verbatim>\<open>try_pop\<close> compares the raw counters, \<^verbatim>\<open>r >= w\<close>).
\<close>

theorem push_overwrite_keeps_last:
  fixes rb0 :: "'a RingBuffer" and vs ws out :: "'a list" and x :: 'a
  assumes inv: "rb_inv rb0" and emp: "empty_rb rb0"
    and lvs: "length vs = unat (capacity rb0)"
  defines "rb1 \<equiv> snd (snd (run (map Push vs) rb0))"
  defines "rb2 \<equiv> fold push_overwrite ws rb1"
  shows "fst (run (map Push vs) rb0) = vs \<and> full rb1
    \<and> rb_size rb2 = capacity rb0
    \<and> (\<forall>j<length ws. read_pos (fold push_overwrite (take (Suc j) ws) rb1)
                         = read_pos (fold push_overwrite (take j ws) rb1) + 1)
    \<and> (length out = length vs \<longrightarrow>
         try_pop_span out rb2
           = (drop (length ws) (vs @ ws), capacity rb0, rb2\<lparr>read_pos := write_pos rb2\<rparr>))
    \<and> (unat (write_pos rb0) + length vs + length ws < 2 ^ 64 \<longrightarrow>
         pops (length vs) x rb2
           = (map (Pair True) (drop (length ws) (vs @ ws)), rb2\<lparr>read_pos := write_pos rb2\<rparr>))"
proof -
  from emp have c0: "contents rb0 = []" by (simp add: empty_rb_def contents_Nil_iff)
  from emp have rw: "read_pos rb0 = write_pos rb0" by (simp add: empty_rb_def rb_size_def)
  have "length (contents rb0) + length vs \<le> unat (capacity rb0)"
    by (simp only: c0 lvs) simp
  from fill_pushes [OF inv this, of "[]" "[]"] obtain rb' where
    r: "fold step (map Push vs) ([], [], rb0) = ([] @ vs, [], rb')" "rb_inv rb'"
       "contents rb' = contents rb0 @ vs" "read_pos rb' = read_pos rb0"
       "write_pos rb' = write_pos rb0 + of_nat (length vs)" "capacity rb' = capacity rb0"
    by blast
  have run: "run (map Push vs) rb0 = (vs, [], rb')" using r(1) by (simp add: run_def)
  then have rb1: "rb1 = rb'" by (simp add: rb1_def)
  have c1: "contents rb1 = vs" by (simp only: rb1 r(3) c0 append_Nil)
  have f1: "full rb1" unfolding full_iff c1 by (simp only: rb1 r(6) lvs)
  have i1: "rb_inv rb1" by (simp only: rb1 r(2))
  note ow = overwrites [OF i1 f1]
  have cap2: "capacity rb2 = capacity rb0" using ow [of ws] by (simp add: rb2_def rb1 r(6))
  have f2: "full rb2" using ow [of ws] by (simp add: rb2_def)
  have i2: "rb_inv rb2" using ow [of ws] by (simp add: rb2_def)
  have c2: "contents rb2 = drop (length ws) (vs @ ws)"
    using ow [of ws] by (simp only: rb2_def c1)
  have s2: "rb_size rb2 = capacity rb0" using f2 by (simp add: full_def cap2)
  have steps: "\<forall>j<length ws. read_pos (fold push_overwrite (take (Suc j) ws) rb1)
                         = read_pos (fold push_overwrite (take j ws) rb1) + 1"
  proof (intro allI impI)
    fix j assume "j < length ws"
    then have "length (take (Suc j) ws) = Suc j" "length (take j ws) = j" by simp_all
    with ow [of "take (Suc j) ws"] ow [of "take j ws"]
    show "read_pos (fold push_overwrite (take (Suc j) ws) rb1)
            = read_pos (fold push_overwrite (take j ws) rb1) + 1"
      by simp
  qed
  have lc2: "length (contents rb2) = length vs"
    using f2 by (simp only: full_iff cap2 lvs)
  have span: "try_pop_span out rb2
           = (drop (length ws) (vs @ ws), capacity rb0, rb2\<lparr>read_pos := write_pos rb2\<rparr>)"
    if "length out = length vs"
  proof -
    have "span_size out = capacity rb0" using that by (simp add: span_size_def lvs)
    then have "min (rb_size rb2) (span_size out) = capacity rb0" by (simp add: s2)
    then have m: "unat (min (rb_size rb2) (span_size out)) = length vs" by (simp only: lvs)
    have ofm: "(of_nat (length vs) :: size_t) = capacity rb0" by (simp add: lvs)
    have "read_pos rb2 + rb_size rb2 = write_pos rb2" by (simp add: rb_size_def)
    then have w: "read_pos rb2 + capacity rb0 = write_pos rb2" by (simp only: s2)
    have t: "take (length vs) (contents rb2) = contents rb2" by (simp only: lc2 [symmetric] take_all_iff)
    have d: "drop (length vs) out = []" using that by simp
    from try_pop_span_ok [OF i2, of out]
    have "try_pop_span out rb2
            = (take (length vs) (contents rb2) @ drop (length vs) out, of_nat (length vs),
               rb2\<lparr>read_pos := read_pos rb2 + of_nat (length vs)\<rparr>)"
      by (simp only: m)
    then have "try_pop_span out rb2
            = (contents rb2, capacity rb0, rb2\<lparr>read_pos := write_pos rb2\<rparr>)"
      by (simp only: t d ofm w append_Nil2)
    then show ?thesis by (simp only: c2)
  qed
  have single: "pops (length vs) x rb2
           = (map (Pair True) (drop (length ws) (vs @ ws)), rb2\<lparr>read_pos := write_pos rb2\<rparr>)"
    if nw: "unat (write_pos rb0) + length vs + length ws < 2 ^ 64"
  proof -
    have rp: "read_pos rb2 = write_pos rb0 + of_nat (length ws)"
      using ow [of ws] by (simp add: rb2_def rb1 r(4) rw)
    have "unat (read_pos rb2) \<le> unat (write_pos rb0) + length ws"
      unfolding rp by (simp add: unat_word_ariths unat_of_nat)
    with nw have "unat (read_pos rb2) + length (contents rb2) < 2 ^ 64"
      by (simp only: lc2)
    from pops_all [OF i2 this lc2 [symmetric], of x] show ?thesis by (simp only: c2)
  qed
  from run f1 s2 steps span single show ?thesis by simp
qed

theorem push_overwrite_keeps_last_witness:
  "rb_inv \<lparr>capacity = 4, mask_f = 3, buffer = [0, 0, 0, 0 :: int], write_pos = 0, read_pos = 0\<rparr>
   \<and> empty_rb \<lparr>capacity = 4, mask_f = 3, buffer = [0, 0, 0, 0 :: int], write_pos = 0, read_pos = 0\<rparr>
   \<and> run (map Push [0, 1, 2, 3])
         \<lparr>capacity = 4, mask_f = 3, buffer = [0, 0, 0, 0 :: int], write_pos = 0, read_pos = 0\<rparr>
       = ([0, 1, 2, 3], [],
          \<lparr>capacity = 4, mask_f = 3, buffer = [0, 1, 2, 3], write_pos = 4, read_pos = 0\<rparr>)
   \<and> fold push_overwrite [100]
         \<lparr>capacity = 4, mask_f = 3, buffer = [0, 1, 2, 3 :: int], write_pos = 4, read_pos = 0\<rparr>
       = \<lparr>capacity = 4, mask_f = 3, buffer = [100, 1, 2, 3], write_pos = 5, read_pos = 1\<rparr>
   \<and> pops (length [0, 1, 2, 3 :: int]) 0
         \<lparr>capacity = 4, mask_f = 3, buffer = [100, 1, 2, 3 :: int], write_pos = 5, read_pos = 1\<rparr>
       = ([(True, 1), (True, 2), (True, 3), (True, 100)],
          \<lparr>capacity = 4, mask_f = 3, buffer = [100, 1, 2, 3], write_pos = 5, read_pos = 5\<rparr>)
   \<and> try_pop_span [0, 0, 0, 0]
         \<lparr>capacity = 4, mask_f = 3, buffer = [100, 1, 2, 3 :: int], write_pos = 5, read_pos = 1\<rparr>
       = ([1, 2, 3, 100], 4,
          \<lparr>capacity = 4, mask_f = 3, buffer = [100, 1, 2, 3], write_pos = 5, read_pos = 5\<rparr>)"
proof -
  let ?rb0 = "\<lparr>capacity = 4, mask_f = 3, buffer = [0, 0, 0, 0 :: int], write_pos = 0, read_pos = 0\<rparr>"
  let ?rb1 = "\<lparr>capacity = 4, mask_f = 3, buffer = [0, 1, 2, 3 :: int], write_pos = 4, read_pos = 0\<rparr>"
  let ?rb2 = "\<lparr>capacity = 4, mask_f = 3, buffer = [100, 1, 2, 3 :: int], write_pos = 5, read_pos = 1\<rparr>"
  have i: "rb_inv ?rb0" by (simp add: rb_inv_def)
  have e: "empty_rb ?rb0" by (simp add: empty_rb_def rb_size_def)
  have l: "length [0, 1, 2, 3 :: int] = unat (capacity ?rb0)" by simp
  have r: "run (map Push [0, 1, 2, 3]) ?rb0 = ([0, 1, 2, 3], [], ?rb1)"
    by (simp add: run_def try_push_def Let_def word_le_nat_alt)
  have w: "fold push_overwrite [100] ?rb1 = ?rb2"
    by (simp add: push_overwrite_def Let_def word_less_nat_alt)
  note t = push_overwrite_keeps_last [OF i e l, where ws = "[100]" and out = "[0, 0, 0, 0]" and x = 0,
      unfolded r snd_conv w]
  have n: "unat (write_pos ?rb0) + length [0, 1, 2, 3 :: int] + length [100 :: int] < 2 ^ 64"
    by simp
  from t n have "pops (length [0, 1, 2, 3 :: int]) 0 ?rb2
      = (map (Pair True) (drop (length [100 :: int]) ([0, 1, 2, 3] @ [100])), ?rb2\<lparr>read_pos := write_pos ?rb2\<rparr>)"
    by blast
  moreover from t have "try_pop_span [0, 0, 0, 0] ?rb2
      = (drop (length [100 :: int]) ([0, 1, 2, 3] @ [100]), capacity ?rb0, ?rb2\<lparr>read_pos := write_pos ?rb2\<rparr>)"
    by simp
  ultimately show ?thesis using i e r w by simp
qed

section \<open>FFT processor: construction\<close>

lemma allocate_buffers_not_invalid: "allocate_buffers fftw p \<noteq> Inl InvalidArgument"
  by (simp add: allocate_buffers_def Let_def split: option.splits)

text \<open>
  Claim C1 at \<^verbatim>\<open>fft_size = 0\<close>.  Zero is not a power of two, yet the constructor's test
  \<^verbatim>\<open>(fft_size & (fft_size - 1)) != 0\<close> is false for it (\<open>0 AND (0 - 1) = 0\<close>), so no
  \<^verbatim>\<open>std::invalid_argument\<close> is thrown: whatever FFTW does, the constructor does not fail
  with \<open>InvalidArgument\<close>.  For every other size that is not a power of two it does
  (\<open>ctor_rejects_non_pow2\<close>), and with an FFTW that accepts the size the construction
  succeeds (\<open>ctor_zero_size_constructs\<close>).
\<close>

theorem ctor_zero_size_not_rejected:
  "FFTProcessor_ctor fftw (cfg\<lparr>fft_size := 0\<rparr>) \<noteq> Inl InvalidArgument"
  using allocate_buffers_not_invalid [of fftw "\<lparr>config = cfg\<lparr>fft_size := 0\<rparr>, input = [], window_v = []\<rparr>"]
  by (auto simp add: FFTProcessor_ctor_def split: sum.splits)

lemma ctor_rejects_non_pow2:
  assumes "fft_size cfg \<noteq> 0" and "\<And>k. k < 64 \<Longrightarrow> fft_size cfg \<noteq> 2 ^ k"
  shows "FFTProcessor_ctor fftw cfg = Inl InvalidArgument"
proof -
  have "fft_size cfg AND (fft_size cfg - 1) \<noteq> 0"
  proof
    assume "fft_size cfg AND (fft_size cfg - 1) = 0"
    moreover have "0 < fft_size cfg" using assms(1) by (simp add: word_gt_0)
    ultimately obtain k where "k < 64" "fft_size cfg = 2 ^ k"
      using word_pow2_check by blast
    with assms(2) show False by blast
  qed
  then show ?thesis by (simp add: FFTProcessor_ctor_def)
qed

lemma ctor_zero_size_constructs:
  "FFTProcessor_ctor
     \<lparr>alloc_real = \<lambda>n. Some (replicate (unat n) 0), alloc_complex = \<lambda>n. True,
      plan_dft_r2c_1d = \<lambda>n. True, execute = \<lambda>xs. []\<rparr>
     \<lparr>fft_size = 0, window = Hann, use_magnitude_db = True, db_floor = - 80, db_ceiling = 0\<rparr>
   = Inr \<lparr>config = \<lparr>fft_size = 0, window = Hann, use_magnitude_db = True, db_floor = - 80,
                      db_ceiling = 0\<rparr>,
          input = [], window_v = []\<rparr>"
  by (simp add: FFTProcessor_ctor_def allocate_buffers_def compute_window_def resize_def Let_def)

section \<open>Logarithmic bands\<close>




lemma log_bands_may_coincide: "compute_log_bands 9 2 1 1 16 16 = [(1, 2), (1, 2)]"
  by (simp add: compute_log_bands_def log_band_def freq_to_bin_def float_to_size_t_def clamp_def
      Let_def upt_rec word_less_nat_alt word_le_nat_alt)

section \<open>FFT processor: the input buffer of compute\<close>

lemma fold_update_range:
  "a + m \<le> length xs \<Longrightarrow>
     fold (\<lambda>i ys. ys[a + i := f i]) [0..<m] xs = take a xs @ map f [0..<m] @ drop (a + m) xs"
proof (induction m)
  case 0
  then show ?case by simp
next
  case (Suc m)
  then have IH: "fold (\<lambda>i ys. ys[a + i := f i]) [0..<m] xs
                   = take a xs @ map f [0..<m] @ drop (a + m) xs" by simp
  have "fold (\<lambda>i ys. ys[a + i := f i]) [0..<Suc m] xs
          = (take a xs @ map f [0..<m] @ drop (a + m) xs)[a + m := f m]"
    by (simp add: IH)
  also have "\<dots> = take a xs @ map f [0..<m] @ (drop (a + m) xs)[0 := f m]"
    using Suc.prems by (simp add: list_update_append)
  also have "(drop (a + m) xs)[0 := f m] = f m # drop (a + Suc m) xs"
    using Suc.prems by (simp add: Cons_nth_drop_Suc [symmetric])
  finally show ?case by simp
qed

lemma unat_span_size: "length xs < 2 ^ 64 \<Longrightarrow> unat (span_size xs) = length xs"
  by (simp add: span_size_def unat_of_nat)

lemma unat_min: "unat (min a b :: size_t) = min (unat a) (unat b)"
  by (simp add: min_def word_le_nat_alt)

lemma unat_add_small:
  fixes x :: size_t
  assumes "unat x + i < 2 ^ 64"
  shows "unat (x + of_nat i) = unat x + i"
proof -
  from assms have i: "i < 2 ^ 64" by simp
  then have u: "unat (of_nat i :: size_t) = i" by (simp add: unat_of_nat)
  with assms have "unat x + unat (of_nat i :: size_t) < 2 ^ LENGTH(64)" by simp
  then have "unat (x + of_nat i) = unat x + unat (of_nat i :: size_t)"
    by (simp only: unat_add_lem)
  then show ?thesis by (simp only: u)
qed

text \<open>
  Claim C7.  Let \<open>n\<close> be the FFT size and \<open>cc = min(len, n)\<close>.  With the input buffer
  and the window of length \<open>n\<close> and an output span of at least \<open>bin_count\<close> elements,
  \<^verbatim>\<open>compute\<close> returns \<open>bin_count = n / 2 + 1\<close> without error, and the FFT input buffer
  holds \<open>n - cc\<close> zeros followed by the last \<open>cc\<close> samples, each multiplied by the
  window coefficient of its position (\<open>window[n - cc .. n]\<close>).  For \<open>len < n\<close> these are
  all the samples, right-aligned behind \<open>n - len\<close> leading zeros.
\<close>

theorem compute_fills_input:
  fixes p :: FFTProcessor and samples outp :: "real list"
  defines "n \<equiv> unat (fft_size (config p))"
  defines "cc \<equiv> min (length samples) n"
  assumes li: "length (input p) = n" and lw: "length (window_v p) = n"
    and ls: "length samples < 2 ^ 64" and lo: "bin_count p \<le> span_size outp"
  shows "\<exists>out'. compute fftw samples outp p
           = Inr (p\<lparr>input := replicate (n - cc) 0
                     @ map (\<lambda>(s, w). s * w)
                         (zip (drop (length samples - cc) samples) (drop (n - cc) (window_v p)))\<rparr>,
                  out', fft_size (config p) div 2 + 1)"
proof -
  define copy_count where "copy_count = min (span_size samples) (fft_size (config p))"
  define offset where "offset = fft_size (config p) - copy_count"
  have n64: "n < 2 ^ 64" using unsigned_less [of "fft_size (config p)"] by (simp add: n_def)
  have ucc: "unat copy_count = cc"
    by (simp add: copy_count_def cc_def unat_min unat_span_size [OF ls] n_def)
  have "copy_count \<le> fft_size (config p)" by (simp add: copy_count_def)
  then have uoff: "unat offset = n - cc"
    by (simp add: offset_def unat_sub ucc n_def)
  have "copy_count \<le> span_size samples" by (simp add: copy_count_def)
  then have ubase: "unat (span_size samples - copy_count) = length samples - cc"
    by (simp add: unat_sub ucc unat_span_size [OF ls])
  have ccn: "cc \<le> n" and ccl: "cc \<le> length samples" by (simp_all add: cc_def)
  define in1 where "in1 = fold (\<lambda>i inp. inp[i := 0::real]) [0..<n - cc] (input p)"
  have "in1 = fold (\<lambda>i inp. inp[0 + i := (\<lambda>_. 0::real) i]) [0..<n - cc] (input p)"
    by (simp add: in1_def)
  also have "\<dots> = take 0 (input p) @ map (\<lambda>_. 0) [0..<n - cc] @ drop (0 + (n - cc)) (input p)"
    by (rule fold_update_range) (simp add: li)
  finally have in1: "in1 = replicate (n - cc) 0 @ drop (n - cc) (input p)"
    by (simp add: map_replicate_const)
  have len1: "length in1 = n" using ccn by (simp add: in1 li)
  define f where "f = (\<lambda>i. samples ! (length samples - cc + i) * window_v p ! (n - cc + i))"
  define in2 where "in2 = fold (\<lambda>i inp. inp[unat (offset + of_nat i) :=
                           samples ! unat (span_size samples - copy_count + of_nat i)
                             * window_v p ! unat (offset + of_nat i)])
                       [0..<cc] in1"
  have "in2 = fold (\<lambda>i inp. inp[(n - cc) + i := f i]) [0..<cc] in1"
    unfolding in2_def
  proof (rule fold_cong [OF refl refl])
    fix i assume "i \<in> set [0..<cc]"
    then have i: "i < cc" by simp
    have 1: "unat (offset + of_nat i) = n - cc + i"
      using unat_add_small [of offset i] i ccn n64 by (simp add: uoff)
    have 2: "unat (span_size samples - copy_count + of_nat i) = length samples - cc + i"
      using unat_add_small [of "span_size samples - copy_count" i] i ccl ls by (simp add: ubase)
    show "(\<lambda>inp. inp[unat (offset + of_nat i) :=
                           samples ! unat (span_size samples - copy_count + of_nat i)
                             * window_v p ! unat (offset + of_nat i)])
          = (\<lambda>inp. inp[(n - cc) + i := f i])"
      by (simp add: 1 2 f_def)
  qed
  also have "\<dots> = take (n - cc) in1 @ map f [0..<cc] @ drop (n - cc + cc) in1"
    by (rule fold_update_range) (simp add: len1 ccn)
  finally have in2: "in2 = replicate (n - cc) 0 @ map f [0..<cc]"
    using ccn by (simp add: in1 len1 li)
  have m: "map f [0..<cc]
      = map (\<lambda>(s, w). s * w)
          (zip (drop (length samples - cc) samples) (drop (n - cc) (window_v p)))"
    using ccn ccl by (intro nth_equalityI) (simp_all add: lw f_def)
  have "compute fftw samples outp p
      = Inr (p\<lparr>input := in2\<rparr>,
             fold (\<lambda>i out. out[i := bin_magnitude (config p) (bin_count p) i (execute fftw in2 ! i)])
               [0..<unat (bin_count p)] outp,
             bin_count p)"
    using lo
    by (simp add: compute_def Let_def in2_def in1_def copy_count_def [symmetric]
        offset_def [symmetric] ucc uoff)
  then show ?thesis by (simp add: in2 m bin_count_def)
qed

theorem compute_fills_input_witness:
  "length (input \<lparr>config = \<lparr>fft_size = 4, window = Rectangular, use_magnitude_db = False,
                        db_floor = - 80, db_ceiling = 0\<rparr>,
             input = [9, 9, 9, 9], window_v = [2, 3, 5, 7]\<rparr>) = 4
   \<and> (\<exists>out'. compute dft4_fftw [10, 20] [0, 0, 0]
         \<lparr>config = \<lparr>fft_size = 4, window = Rectangular, use_magnitude_db = False,
                        db_floor = - 80, db_ceiling = 0\<rparr>,
             input = [9, 9, 9, 9], window_v = [2, 3, 5, 7]\<rparr>
       = Inr (\<lparr>config = \<lparr>fft_size = 4, window = Rectangular, use_magnitude_db = False,
                        db_floor = - 80, db_ceiling = 0\<rparr>,
             input = [0, 0, 50, 140], window_v = [2, 3, 5, 7]\<rparr>, out', 3))"
proof -
  let ?p = "\<lparr>config = \<lparr>fft_size = 4, window = Rectangular, use_magnitude_db = False,
                        db_floor = - 80, db_ceiling = 0\<rparr>,
             input = [9, 9, 9, 9 :: real], window_v = [2, 3, 5, 7 :: real]\<rparr>"
  have li: "length (input ?p) = unat (fft_size (config ?p))"
    and lw: "length (window_v ?p) = unat (fft_size (config ?p))"
    and ls: "length [10, 20 :: real] < 2 ^ 64"
    and lo: "bin_count ?p \<le> span_size [0, 0, 0 :: real]"
    by (simp_all add: bin_count_def span_size_def)
  have r2: "replicate 2 (0 :: real) = [0, 0]" by (simp add: numeral_eq_Suc)
  from compute_fills_input [OF li lw ls lo, of dft4_fftw] show ?thesis
    by (simp add: r2)
qed

section \<open>Evaluating the analyzer on the concrete inputs\<close>

lemma upt_lits: "[0..<1] = [0]" "[0..<3] = [0, 1, 2]" "[0..<4] = [0, 1, 2, 3]"
  by (simp_all add: upt_rec)

lemmas wcmp = word_less_nat_alt word_le_nat_alt

lemmas qs = quiet_state_def test_state_def

lemma levels0: "levels [0, 0, 0, 0] 4 = (0, 0)"
  by (simp add: levels_def upt_lits Let_def)

lemma compute0: "compute dft4_fftw [0, 0, 0, 0] [0, 0, 0]
     \<lparr>config = \<lparr>fft_size = 4, window = Rectangular, use_magnitude_db = False,
                        db_floor = - 80, db_ceiling = 0\<rparr>,
             input = [0, 0, 0, 0], window_v = [1, 1, 1, 1]\<rparr>
     = Inr (\<lparr>config = \<lparr>fft_size = 4, window = Rectangular, use_magnitude_db = False,
                        db_floor = - 80, db_ceiling = 0\<rparr>,
             input = [0, 0, 0, 0], window_v = [1, 1, 1, 1]\<rparr>, [0, 0, 0], 3)"
  by (simp add: upt_lits Let_def wcmp compute_def bin_count_def span_size_def dft4_fftw_def bin_magnitude_def)

lemma feed0: "feed [0, 0, 0, 0] (quiet_state 0 0 x y) = quiet_state 4 0 x y"
  by (simp add: feed_def qs try_push_span_def span_size_def Let_def upt_lits wcmp)

lemma peek0: "peek [0, 0, 0, 0 :: real]
    \<lparr>capacity = 4, mask_f = 3, buffer = [0, 0, 0, 0], write_pos = 4, read_pos = 0\<rparr>
    = ([0, 0, 0, 0], 4)"
  by (simp add: peek_def copy_out_def span_size_def Let_def upt_lits wcmp)

lemma discard0: "discard 4
    \<lparr>capacity = 4, mask_f = 3, buffer = [0, 0, 0, 0 :: real], write_pos = 4, read_pos = 0\<rparr>
    = (4, \<lparr>capacity = 4, mask_f = 3, buffer = [0, 0, 0, 0], write_pos = 4, read_pos = 4\<rparr>)"
  by (simp add: discard_def Let_def)

lemma frame0:
  "update dft4_fftw now (quiet_state 4 0 x y)
     = Inr (\<lparr>magnitudes = [x / 2], peaks = [if y < x / 2 then x / 2 else y / 4],
              rms_level = 0, peak_level = 0, timestamp = now\<rparr>,
            quiet_state 4 4 (x / 2) (if y < x / 2 then x / 2 else y / 4))"
  by (simp add: update_def qs rb_size_def peek0 discard0 levels0 compute0 resize_def
      band_step_def compute_band_magnitude_def upt_lits Let_def wcmp unat_div)

lemma feed8: "feed [0, 0, 0, 0] (quiet_state 8 8 x y) = quiet_state 12 8 x y"
  by (simp add: feed_def qs try_push_span_def span_size_def Let_def upt_lits wcmp)

lemma peek8: "peek [0, 0, 0, 0 :: real]
    \<lparr>capacity = 4, mask_f = 3, buffer = [0, 0, 0, 0], write_pos = 12, read_pos = 8\<rparr>
    = ([0, 0, 0, 0], 4)"
  by (simp add: peek_def copy_out_def span_size_def Let_def upt_lits wcmp)

lemma discard8: "discard 4
    \<lparr>capacity = 4, mask_f = 3, buffer = [0, 0, 0, 0 :: real], write_pos = 12, read_pos = 8\<rparr>
    = (4, \<lparr>capacity = 4, mask_f = 3, buffer = [0, 0, 0, 0], write_pos = 12, read_pos = 12\<rparr>)"
  by (simp add: discard_def Let_def)

lemma frame8:
  "update dft4_fftw now (quiet_state 12 8 x y)
     = Inr (\<lparr>magnitudes = [x / 2], peaks = [if y < x / 2 then x / 2 else y / 4],
              rms_level = 0, peak_level = 0, timestamp = now\<rparr>,
            quiet_state 12 12 (x / 2) (if y < x / 2 then x / 2 else y / 4))"
  by (simp add: update_def qs rb_size_def peek8 discard8 levels0 compute0 resize_def
      band_step_def compute_band_magnitude_def upt_lits Let_def wcmp unat_div)

lemma feed12: "feed [0, 0, 0, 0] (quiet_state 12 12 x y) = quiet_state 16 12 x y"
  by (simp add: feed_def qs try_push_span_def span_size_def Let_def upt_lits wcmp)

lemma peek12: "peek [0, 0, 0, 0 :: real]
    \<lparr>capacity = 4, mask_f = 3, buffer = [0, 0, 0, 0], write_pos = 16, read_pos = 12\<rparr>
    = ([0, 0, 0, 0], 4)"
  by (simp add: peek_def copy_out_def span_size_def Let_def upt_lits wcmp)

lemma discard12: "discard 4
    \<lparr>capacity = 4, mask_f = 3, buffer = [0, 0, 0, 0 :: real], write_pos = 16, read_pos = 12\<rparr>
    = (4, \<lparr>capacity = 4, mask_f = 3, buffer = [0, 0, 0, 0], write_pos = 16, read_pos = 16\<rparr>)"
  by (simp add: discard_def Let_def)

lemma frame12:
  "update dft4_fftw now (quiet_state 16 12 x y)
     = Inr (\<lparr>magnitudes = [x / 2], peaks = [if y < x / 2 then x / 2 else y / 4],
              rms_level = 0, peak_level = 0, timestamp = now\<rparr>,
            quiet_state 16 16 (x / 2) (if y < x / 2 then x / 2 else y / 4))"
  by (simp add: update_def qs rb_size_def peek12 discard12 levels0 compute0 resize_def
      band_step_def compute_band_magnitude_def upt_lits Let_def wcmp unat_div)

text \<open>The frame with four samples of value 1, from the constructed state.\<close>

lemma feed_loud:
  "feed [1, 1, 1, 1] (quiet_state 0 0 0 0)
     = test_state [1, 1, 1, 1] 4 0 [0, 0, 0, 0] [0, 0, 0] 0 0"
  by (simp add: feed_def qs try_push_span_def span_size_def Let_def upt_lits wcmp)

lemma peek_loud: "peek [0, 0, 0, 0 :: real]
    \<lparr>capacity = 4, mask_f = 3, buffer = [1, 1, 1, 1], write_pos = 4, read_pos = 0\<rparr>
    = ([1, 1, 1, 1], 4)"
  by (simp add: peek_def copy_out_def span_size_def Let_def upt_lits wcmp)

lemma discard_loud: "discard 4
    \<lparr>capacity = 4, mask_f = 3, buffer = [1, 1, 1, 1 :: real], write_pos = 4, read_pos = 0\<rparr>
    = (4, \<lparr>capacity = 4, mask_f = 3, buffer = [1, 1, 1, 1], write_pos = 4, read_pos = 4\<rparr>)"
  by (simp add: discard_def Let_def)

lemma levels_loud: "levels [1, 1, 1, 1] 4 = (4, 1)"
  by (simp add: levels_def upt_lits Let_def)

lemma sqrt16: "sqrt 16 = 4"
  by (rule real_sqrt_unique) simp_all

lemma compute_loud: "compute dft4_fftw [1, 1, 1, 1] [0, 0, 0]
     \<lparr>config = \<lparr>fft_size = 4, window = Rectangular, use_magnitude_db = False,
                        db_floor = - 80, db_ceiling = 0\<rparr>,
             input = [0, 0, 0, 0], window_v = [1, 1, 1, 1]\<rparr>
     = Inr (\<lparr>config = \<lparr>fft_size = 4, window = Rectangular, use_magnitude_db = False,
                        db_floor = - 80, db_ceiling = 0\<rparr>,
             input = [1, 1, 1, 1], window_v = [1, 1, 1, 1]\<rparr>, [1, 0, 0], 3)"
  by (simp add: upt_lits Let_def wcmp compute_def bin_count_def span_size_def dft4_fftw_def
      bin_magnitude_def sqrt16)

lemma frame_loud:
  "update dft4_fftw now (test_state [1, 1, 1, 1] 4 0 [0, 0, 0, 0] [0, 0, 0] 0 0)
     = Inr (\<lparr>magnitudes = [1 / 2], peaks = [1 / 2], rms_level = 1, peak_level = 1,
              timestamp = now\<rparr>,
            test_state [1, 1, 1, 1] 4 4 [1, 1, 1, 1] [1, 0, 0] (1 / 2) (1 / 2))"
  by (simp add: update_def qs rb_size_def peek_loud discard_loud levels_loud compute_loud resize_def
      band_step_def compute_band_magnitude_def upt_lits Let_def wcmp unat_div)

text \<open>The first silent frame after it overwrites the buffers with zeros.\<close>

lemma feed_after:
  "feed [0, 0, 0, 0] (test_state [1, 1, 1, 1] 4 4 [1, 1, 1, 1] [1, 0, 0] x y)
     = test_state [0, 0, 0, 0] 8 4 [1, 1, 1, 1] [1, 0, 0] x y"
  by (simp add: feed_def qs try_push_span_def span_size_def Let_def upt_lits wcmp)

lemma peek_after: "peek [1, 1, 1, 1 :: real]
    \<lparr>capacity = 4, mask_f = 3, buffer = [0, 0, 0, 0], write_pos = 8, read_pos = 4\<rparr>
    = ([0, 0, 0, 0], 4)"
  by (simp add: peek_def copy_out_def span_size_def Let_def upt_lits wcmp)

lemma discard_after: "discard 4
    \<lparr>capacity = 4, mask_f = 3, buffer = [0, 0, 0, 0 :: real], write_pos = 8, read_pos = 4\<rparr>
    = (4, \<lparr>capacity = 4, mask_f = 3, buffer = [0, 0, 0, 0], write_pos = 8, read_pos = 8\<rparr>)"
  by (simp add: discard_def Let_def)

lemma compute_after: "compute dft4_fftw [0, 0, 0, 0] [1, 0, 0]
     \<lparr>config = \<lparr>fft_size = 4, window = Rectangular, use_magnitude_db = False,
                        db_floor = - 80, db_ceiling = 0\<rparr>,
             input = [1, 1, 1, 1], window_v = [1, 1, 1, 1]\<rparr>
     = Inr (\<lparr>config = \<lparr>fft_size = 4, window = Rectangular, use_magnitude_db = False,
                        db_floor = - 80, db_ceiling = 0\<rparr>,
             input = [0, 0, 0, 0], window_v = [1, 1, 1, 1]\<rparr>, [0, 0, 0], 3)"
  by (simp add: upt_lits Let_def wcmp compute_def bin_count_def span_size_def dft4_fftw_def bin_magnitude_def)

lemma frame_after:
  "update dft4_fftw now (test_state [0, 0, 0, 0] 8 4 [1, 1, 1, 1] [1, 0, 0] x y)
     = Inr (\<lparr>magnitudes = [x / 2], peaks = [if y < x / 2 then x / 2 else y / 4],
              rms_level = 0, peak_level = 0, timestamp = now\<rparr>,
            quiet_state 8 8 (x / 2) (if y < x / 2 then x / 2 else y / 4))"
  by (simp add: update_def qs rb_size_def peek_after discard_after levels0 compute_after resize_def
      band_step_def compute_band_magnitude_def upt_lits Let_def wcmp unat_div)

lemma rb_ctor4:
  "(RingBuffer_ctor float_alloc 4 :: error + real RingBuffer)
     = Inr \<lparr>capacity = 4, mask_f = 3, buffer = [0, 0, 0, 0], write_pos = 0, read_pos = 0\<rparr>"
proof -
  have np: "next_power_of_two 4 = 4" by (simp add: next_power_of_two_def Let_def)
  have r4: "replicate 4 (0 :: real) = [0, 0, 0, 0]" by (simp add: numeral_eq_Suc)
  show ?thesis by (simp add: RingBuffer_ctor_def float_alloc_def Let_def np r4)
qed

lemma audio_ctor4:
  "AudioCapture_ctor float_alloc \<lparr>default_input_device = True, device_info = True, open_stream = True\<rparr>
     \<lparr>sample_rate = 8, buffer_frames = 4, channels = 1, ring_buffer_seconds = 1 / 2\<rparr>
   = Inr \<lparr>audio_config = \<lparr>sample_rate = 8, buffer_frames = 4, channels = 1,
                                  ring_buffer_seconds = 1 / 2\<rparr>,
          ring_buffer = \<lparr>capacity = 4, mask_f = 3, buffer = [0, 0, 0, 0],
                               write_pos = 0, read_pos = 0\<rparr>\<rparr>"
  by (simp add: AudioCapture_ctor_def Let_def float_to_size_t_def rb_ctor4)

lemma fft_ctor4:
  "FFTProcessor_ctor dft4_fftw
     \<lparr>fft_size = 4, window = Rectangular, use_magnitude_db = False, db_floor = - 80, db_ceiling = 0\<rparr>
   = Inr \<lparr>config = \<lparr>fft_size = 4, window = Rectangular, use_magnitude_db = False,
                        db_floor = - 80, db_ceiling = 0\<rparr>,
             input = [0, 0, 0, 0], window_v = [1, 1, 1, 1]\<rparr>"
proof -
  have r4: "replicate 4 (0 :: real) = [0, 0, 0, 0]" by (simp add: numeral_eq_Suc)
  show ?thesis
    by (simp add: FFTProcessor_ctor_def allocate_buffers_def compute_window_def resize_def
        dft4_fftw_def Let_def r4)
qed

lemma bands4: "compute_log_bands 3 1 1 2 8 4 = [(0, 1)]"
  by (simp add: compute_log_bands_def log_band_def freq_to_bin_def float_to_size_t_def clamp_def
      Let_def upt_lits wcmp)

lemma analyzer_ctor4:
  "SpectrumAnalyzer_ctor float_alloc \<lparr>default_input_device = True, device_info = True, open_stream = True\<rparr>
     dft4_fftw
     \<lparr>sample_rate = 8, buffer_frames = 4, channels = 1, ring_buffer_seconds = 1 / 2\<rparr>
     \<lparr>fft_size = 4, window = Rectangular, use_magnitude_db = False, db_floor = - 80, db_ceiling = 0\<rparr>
     \<lparr>num_bands = 1, min_frequency = 1, max_frequency = 2, smoothing_factor = 1 / 2,
       peak_decay_rate = 1 / 4, logarithmic_frequency = True\<rparr>
   = Inr (quiet_state 0 0 0 0)"
proof -
  have r4: "replicate 4 (0 :: real) = [0, 0, 0, 0]" and r3: "replicate 3 (0 :: real) = [0, 0, 0]"
    by (simp_all add: numeral_eq_Suc)
  show ?thesis
    by (simp add: SpectrumAnalyzer_ctor_def audio_ctor4 fft_ctor4 recompute_band_mapping_def
        analyzer_sample_rate_def bin_count_def bands4 resize_def qs Let_def r4 r3)
qed

section \<open>Spectrum analyzer: starvation\<close>

lemma resize_Nil: "resize [] n = replicate n 0"
  by (simp add: resize_def)

lemma update_starved_eq:
  assumes "rb_size (ring_buffer (audio a)) < fft_size (config (fft a)) div 4"
  shows "update fftw now a
           = Inr (\<lparr>magnitudes = smoothed_magnitudes a, peaks = peak_values a,
                   rms_level = 0, peak_level = 0, timestamp = now\<rparr>, a)"
  using assms by (simp add: update_def Let_def)

lemma FFTProcessor_ctor_config:
  assumes "FFTProcessor_ctor fftw cfg = Inr p"
  shows "config p = cfg"
  using assms
  by (auto simp add: FFTProcessor_ctor_def allocate_buffers_def compute_window_def Let_def
      split: if_splits sum.splits option.splits WindowFunction.splits)

lemma AudioCapture_ctor_empty:
  assumes "AudioCapture_ctor alloc pa cfg = Inr au"
  shows "rb_size (ring_buffer au) = 0"
proof -
  from assms obtain rb where "RingBuffer_ctor alloc
      (float_to_size_t (ring_buffer_seconds cfg * real (unat (sample_rate cfg))
                               * real (unat (channels cfg)))) = Inr rb" "ring_buffer au = rb"
    by (auto simp add: AudioCapture_ctor_def Let_def split: sum.splits if_splits)
  with ctor_inv [of alloc _ rb] show ?thesis by (simp add: rb_size_def)
qed

lemma recompute_band_mapping_frame:
  assumes "recompute_band_mapping a = Inr a'"
  shows "audio a' = audio a \<and> fft a' = fft a \<and> analyzer_config a' = analyzer_config a
         \<and> smoothed_magnitudes a' = smoothed_magnitudes a \<and> peak_values a' = peak_values a"
  using assms by (auto simp add: recompute_band_mapping_def Let_def split: if_splits)

lemma SpectrumAnalyzer_ctor_state:
  assumes "SpectrumAnalyzer_ctor alloc pa fftw audio_cfg fft_cfg an_cfg = Inr a"
  shows "rb_size (ring_buffer (audio a)) = 0 \<and> config (fft a) = fft_cfg
         \<and> analyzer_config a = an_cfg
         \<and> smoothed_magnitudes a = replicate (unat (num_bands an_cfg)) 0
         \<and> peak_values a = replicate (unat (num_bands an_cfg)) 0"
proof -
  from assms obtain au p where au: "AudioCapture_ctor alloc pa audio_cfg = Inr au"
    and p: "FFTProcessor_ctor fftw fft_cfg = Inr p"
    and r: "recompute_band_mapping
                 \<lparr>audio = au, fft = p, analyzer_config = an_cfg,
                  sample_buffer = resize [] (unat (fft_size (config p))),
                  magnitude_buffer = resize [] (unat (bin_count p)),
                  smoothed_magnitudes = resize [] (unat (num_bands an_cfg)),
                  peak_values = resize [] (unat (num_bands an_cfg)),
                  band_bins = []\<rparr> = Inr a"
    by (auto simp add: SpectrumAnalyzer_ctor_def split: sum.splits)
  from recompute_band_mapping_frame [OF r] AudioCapture_ctor_empty [OF au]
    FFTProcessor_ctor_config [OF p]
  show ?thesis by (simp add: resize_Nil)
qed

lemma quarter_pos:
  fixes n :: size_t
  assumes "4 \<le> n"
  shows "0 < n div 4"
proof -
  from assms have "4 \<le> unat n" by (simp add: word_le_nat_alt)
  then have "0 < unat n div 4" by simp
  then show ?thesis by (simp add: word_less_nat_alt unat_div)
qed

text \<open>
  Claim C2.  Whenever the ring buffer holds fewer than \<open>fft_size / 4\<close> samples,
  \<^verbatim>\<open>update()\<close> returns a snapshot whose magnitudes are the current smoothed magnitudes,
  whose peaks are the current peak values, and whose RMS and peak level are 0.  In
  particular, right after construction (with \<open>fft_size \<ge> 4\<close>, so that the empty buffer is
  below the threshold) the magnitudes and peaks returned are all zero.
\<close>

theorem update_starved_snapshot:
  "(rb_size (ring_buffer (audio a)) < fft_size (config (fft a)) div 4 \<longrightarrow>
      (\<exists>res a'. update fftw now a = Inr (res, a')
         \<and> magnitudes res = smoothed_magnitudes a \<and> peaks res = peak_values a
         \<and> rms_level res = 0 \<and> peak_level res = 0))
   \<and> (SpectrumAnalyzer_ctor alloc pa fftw audio_cfg fft_cfg an_cfg = Inr a0 \<and> 4 \<le> fft_size fft_cfg \<longrightarrow>
      (\<exists>res a'. update fftw now a0 = Inr (res, a')
         \<and> magnitudes res = replicate (unat (num_bands an_cfg)) 0
         \<and> peaks res = replicate (unat (num_bands an_cfg)) 0
         \<and> rms_level res = 0 \<and> peak_level res = 0))"
proof (intro conjI impI)
  assume "rb_size (ring_buffer (audio a)) < fft_size (config (fft a)) div 4"
  then show "\<exists>res a'. update fftw now a = Inr (res, a')
         \<and> magnitudes res = smoothed_magnitudes a \<and> peaks res = peak_values a
         \<and> rms_level res = 0 \<and> peak_level res = 0"
    by (simp add: update_starved_eq)
next
  assume c: "SpectrumAnalyzer_ctor alloc pa fftw audio_cfg fft_cfg an_cfg = Inr a0 \<and> 4 \<le> fft_size fft_cfg"
  then have s: "rb_size (ring_buffer (audio a0)) = 0" "config (fft a0) = fft_cfg"
    "smoothed_magnitudes a0 = replicate (unat (num_bands an_cfg)) 0"
    "peak_values a0 = replicate (unat (num_bands an_cfg)) 0"
    using SpectrumAnalyzer_ctor_state by blast+
  from c have "0 < fft_size fft_cfg div 4" by (simp add: quarter_pos)
  then have "rb_size (ring_buffer (audio a0)) < fft_size (config (fft a0)) div 4"
    by (simp add: s)
  then show "\<exists>res a'. update fftw now a0 = Inr (res, a')
         \<and> magnitudes res = replicate (unat (num_bands an_cfg)) 0
         \<and> peaks res = replicate (unat (num_bands an_cfg)) 0
         \<and> rms_level res = 0 \<and> peak_level res = 0"
    by (simp add: update_starved_eq s)
qed

theorem update_starved_snapshot_witness:
  "rb_size (ring_buffer (audio (quiet_state 0 0 (1 / 2) (1 / 8))))
       < fft_size (config (fft (quiet_state 0 0 (1 / 2) (1 / 8)))) div 4
   \<and> (\<exists>res a'. update dft4_fftw 7 (quiet_state 0 0 (1 / 2) (1 / 8)) = Inr (res, a')
         \<and> magnitudes res = [1 / 2] \<and> peaks res = [1 / 8]
         \<and> rms_level res = 0 \<and> peak_level res = 0)
   \<and> SpectrumAnalyzer_ctor float_alloc \<lparr>default_input_device = True, device_info = True, open_stream = True\<rparr>
     dft4_fftw
     \<lparr>sample_rate = 8, buffer_frames = 4, channels = 1, ring_buffer_seconds = 1 / 2\<rparr>
     \<lparr>fft_size = 4, window = Rectangular, use_magnitude_db = False, db_floor = - 80, db_ceiling = 0\<rparr>
     \<lparr>num_bands = 1, min_frequency = 1, max_frequency = 2, smoothing_factor = 1 / 2,
       peak_decay_rate = 1 / 4, logarithmic_frequency = True\<rparr>
     = Inr (quiet_state 0 0 0 0)
   \<and> (\<exists>res a'. update dft4_fftw 7 (quiet_state 0 0 0 0) = Inr (res, a')
         \<and> magnitudes res = [0] \<and> peaks res = [0]
         \<and> rms_level res = 0 \<and> peak_level res = 0)"
proof -
  let ?a = "quiet_state 0 0 (1 / 2) (1 / 8)"
  have st: "rb_size (ring_buffer (audio ?a)) < fft_size (config (fft ?a)) div 4"
    by (simp add: qs rb_size_def wcmp unat_div)
  have f: "smoothed_magnitudes ?a = [1 / 2]" "peak_values ?a = [1 / 8]"
    by (simp_all add: qs)
  have four: "(4 :: size_t) \<le> fft_size \<lparr>fft_size = 4, window = Rectangular, use_magnitude_db = False,
      db_floor = - 80, db_ceiling = 0\<rparr>" by simp
  have one: "replicate (unat (num_bands \<lparr>num_bands = 1, min_frequency = 1, max_frequency = 2,
       smoothing_factor = 1 / 2, peak_decay_rate = 1 / 4, logarithmic_frequency = True\<rparr>)) (0 :: real) = [0]"
    by simp
  note t = update_starved_snapshot [where a = ?a and fftw = dft4_fftw and now = 7
      and alloc = float_alloc
      and pa = "\<lparr>default_input_device = True, device_info = True, open_stream = True\<rparr>"
      and audio_cfg = "\<lparr>sample_rate = 8, buffer_frames = 4, channels = 1, ring_buffer_seconds = 1 / 2\<rparr>"
      and fft_cfg = "\<lparr>fft_size = 4, window = Rectangular, use_magnitude_db = False, db_floor = - 80, db_ceiling = 0\<rparr>"
      and an_cfg = "\<lparr>num_bands = 1, min_frequency = 1, max_frequency = 2, smoothing_factor = 1 / 2,
       peak_decay_rate = 1 / 4, logarithmic_frequency = True\<rparr>"
      and ?a0.0 = "quiet_state 0 0 0 0", unfolded f one]
  from t st analyzer_ctor4 four show ?thesis by blast
qed

text \<open>
  Claim C10.  Whenever \<^verbatim>\<open>update()\<close> takes the starvation branch, the analyzer after the
  call equals the analyzer before it: ring buffer (storage and both positions), smoothed
  magnitudes, peak values, band mapping and every other field.
\<close>

theorem update_starved_frame:
  assumes "rb_size (ring_buffer (audio a)) < fft_size (config (fft a)) div 4"
  shows "\<exists>res. update fftw now a = Inr (res, a)"
  using assms by (simp add: update_starved_eq)

theorem update_starved_frame_witness:
  "rb_size (ring_buffer (audio (quiet_state 0 0 (1 / 2) (1 / 8))))
       < fft_size (config (fft (quiet_state 0 0 (1 / 2) (1 / 8)))) div 4
   \<and> (\<exists>res. update dft4_fftw 7 (quiet_state 0 0 (1 / 2) (1 / 8))
               = Inr (res, quiet_state 0 0 (1 / 2) (1 / 8)))"
proof -
  let ?a = "quiet_state 0 0 (1 / 2) (1 / 8)"
  have st: "rb_size (ring_buffer (audio ?a)) < fft_size (config (fft ?a)) div 4"
    by (simp add: qs rb_size_def wcmp unat_div)
  from update_starved_frame [OF st, of dft4_fftw 7] st show ?thesis by blast
qed

section \<open>Spectrum analyzer: smoothing and peak hold\<close>

lemma compute_band_magnitude_cong:
  "band_bins a' = band_bins a \<Longrightarrow> magnitude_buffer a' = magnitude_buffer a \<Longrightarrow>
     compute_band_magnitude a' j = compute_band_magnitude a j"
  by (simp add: compute_band_magnitude_def Let_def)

lemma snoc_update:
  "m < length xs \<Longrightarrow> (map f [0..<m] @ drop m xs)[m := v] = map f [0..<m] @ v # drop (Suc m) xs"
  by (simp add: list_update_append Cons_nth_drop_Suc [symmetric])

lemma snoc_nth:
  "m < length xs \<Longrightarrow> (map f [0..<m] @ drop m xs) ! m = xs ! m"
  by (simp add: nth_append)

lemma snoc_nth_new:
  "(map f [0..<m] @ v # ys) ! m = v"
  by (simp add: nth_append)


lemma band_step_eq:
  assumes "i < length (smoothed_magnitudes a)" and "i < length (peak_values a)"
  shows "band_step i (a, res)
     = (a\<lparr>smoothed_magnitudes := (smoothed_magnitudes a)[i := smoothed_new a i],
          peak_values := (peak_values a)[i := peak_new a i]\<rparr>,
        res\<lparr>magnitudes := (magnitudes res)[i := smoothed_new a i],
            peaks := (peaks res)[i := peak_new a i]\<rparr>)"
  using assms by (simp add: band_step_def Let_def smoothed_new_def peak_new_def)

lemma fold_band_step:
  fixes a :: SpectrumAnalyzer and res :: SpectrumData
  shows "m \<le> length (smoothed_magnitudes a) \<Longrightarrow> m \<le> length (peak_values a) \<Longrightarrow>
     m \<le> length (magnitudes res) \<Longrightarrow> m \<le> length (peaks res) \<Longrightarrow>
     fold band_step [0..<m] (a, res)
       = (a\<lparr>smoothed_magnitudes := map (smoothed_new a) [0..<m] @ drop m (smoothed_magnitudes a),
            peak_values := map (peak_new a) [0..<m] @ drop m (peak_values a)\<rparr>,
          res\<lparr>magnitudes := map (smoothed_new a) [0..<m] @ drop m (magnitudes res),
              peaks := map (peak_new a) [0..<m] @ drop m (peaks res)\<rparr>)"
proof (induction m)
  case 0
  then show ?case by simp
next
  case (Suc m)
  let ?am = "a\<lparr>smoothed_magnitudes := map (smoothed_new a) [0..<m] @ drop m (smoothed_magnitudes a),
            peak_values := map (peak_new a) [0..<m] @ drop m (peak_values a)\<rparr>"
  let ?rm = "res\<lparr>magnitudes := map (smoothed_new a) [0..<m] @ drop m (magnitudes res),
              peaks := map (peak_new a) [0..<m] @ drop m (peaks res)\<rparr>"
  from Suc have IH: "fold band_step [0..<m] (a, res) = (?am, ?rm)" by simp
  from Suc.prems have lt: "m < length (smoothed_magnitudes a)" "m < length (peak_values a)"
    "m < length (magnitudes res)" "m < length (peaks res)" by simp_all
  have raw: "compute_band_magnitude ?am (of_nat m) = compute_band_magnitude a (of_nat m)"
    by (rule compute_band_magnitude_cong) simp_all
  have sn: "smoothed_new ?am m = smoothed_new a m"
    using lt by (simp add: smoothed_new_def raw snoc_nth)
  have pn: "peak_new ?am m = peak_new a m"
    using lt by (simp add: peak_new_def sn snoc_nth)
  have l: "m < length (smoothed_magnitudes ?am)" "m < length (peak_values ?am)"
    using lt by simp_all
  have "fold band_step [0..<Suc m] (a, res) = band_step m (fold band_step [0..<m] (a, res))"
    by simp
  also have "\<dots> = band_step m (?am, ?rm)" by (simp only: IH)
  also have "band_step m (?am, ?rm)
      = (a\<lparr>smoothed_magnitudes := map (smoothed_new a) [0..<Suc m] @ drop (Suc m) (smoothed_magnitudes a),
            peak_values := map (peak_new a) [0..<Suc m] @ drop (Suc m) (peak_values a)\<rparr>,
          res\<lparr>magnitudes := map (smoothed_new a) [0..<Suc m] @ drop (Suc m) (magnitudes res),
              peaks := map (peak_new a) [0..<Suc m] @ drop (Suc m) (peaks res)\<rparr>)"
    unfolding band_step_eq [OF l] sn pn using lt by (simp add: snoc_update)
  finally show ?case .
qed

lemma update_not_starved:
  assumes ns: "\<not> rb_size (ring_buffer (audio a)) < fft_size (config (fft a)) div 4"
    and u: "update fftw now a = Inr (res, a')"
    and ls: "length (smoothed_magnitudes a) = unat (num_bands (analyzer_config a))"
    and lp: "length (peak_values a) = unat (num_bands (analyzer_config a))"
  shows "\<exists>a1. band_bins a1 = band_bins a' \<and> magnitude_buffer a1 = magnitude_buffer a'
           \<and> analyzer_config a1 = analyzer_config a
           \<and> smoothed_magnitudes a1 = smoothed_magnitudes a \<and> peak_values a1 = peak_values a
           \<and> smoothed_magnitudes a' = map (smoothed_new a1) [0..<unat (num_bands (analyzer_config a))]
           \<and> peak_values a' = map (peak_new a1) [0..<unat (num_bands (analyzer_config a))]
           \<and> magnitudes res = map (smoothed_new a1) [0..<unat (num_bands (analyzer_config a))]
           \<and> peaks res = map (peak_new a1) [0..<unat (num_bands (analyzer_config a))]"
proof -
  define nb where "nb = unat (num_bands (analyzer_config a))"
  define buf1 where "buf1 = (if rb_size (ring_buffer (audio a)) > fft_size (config (fft a))
      then snd (discard (rb_size (ring_buffer (audio a)) - fft_size (config (fft a))) (ring_buffer (audio a)))
      else ring_buffer (audio a))"
  define sbuf where "sbuf = fst (peek (sample_buffer a) buf1)"
  define read_count where "read_count = snd (peek (sample_buffer a) buf1)"
  define result1 where "result1 = \<lparr>magnitudes = resize [] nb, peaks = resize [] nb,
      rms_level = sqrt (fst (levels sbuf (unat read_count)) / real (unat read_count)),
      peak_level = snd (levels sbuf (unat read_count)), timestamp = now\<rparr>"
  from u ns obtain r where
    r: "compute fftw (take (unat read_count) sbuf) (magnitude_buffer a) (fft a) = Inr r"
    by (auto simp add: update_def Let_def buf1_def sbuf_def read_count_def split: sum.splits)
  define a1 where "a1 = a\<lparr>fft := fst r, sample_buffer := sbuf, magnitude_buffer := fst (snd r)\<rparr>"
  define st where "st = fold band_step [0..<nb] (a1, result1)"
  from u ns r have res: "res = snd st"
    and a': "a' = (fst st)\<lparr>audio := (audio (fst st))\<lparr>ring_buffer := snd (discard read_count buf1)\<rparr>\<rparr>"
    by (simp_all add: update_def Let_def buf1_def [symmetric] sbuf_def [symmetric]
        read_count_def [symmetric] nb_def [symmetric] result1_def st_def a1_def)
  have "st = (a1\<lparr>smoothed_magnitudes := map (smoothed_new a1) [0..<nb] @ drop nb (smoothed_magnitudes a1),
            peak_values := map (peak_new a1) [0..<nb] @ drop nb (peak_values a1)\<rparr>,
          result1\<lparr>magnitudes := map (smoothed_new a1) [0..<nb] @ drop nb (magnitudes result1),
              peaks := map (peak_new a1) [0..<nb] @ drop nb (peaks result1)\<rparr>)"
    unfolding st_def
    by (rule fold_band_step) (simp_all add: a1_def result1_def resize_Nil ls lp nb_def)
  then have st: "st = (a1\<lparr>smoothed_magnitudes := map (smoothed_new a1) [0..<nb],
                            peak_values := map (peak_new a1) [0..<nb]\<rparr>,
                       result1\<lparr>magnitudes := map (smoothed_new a1) [0..<nb],
                               peaks := map (peak_new a1) [0..<nb]\<rparr>)"
    by (simp add: a1_def result1_def resize_Nil ls lp nb_def)
  show ?thesis
    by (rule exI [of _ a1]) (simp add: res a' st nb_def [symmetric], simp add: a1_def)
qed

text \<open>
  Claim C9, amended.  In a non-starved \<^verbatim>\<open>update()\<close> every band \<open>i\<close> gets
  \<open>smoothed[i] := (1 - s) * raw + s * smoothed[i]\<close> and then
  \<open>peak[i] := smoothed[i]\<close> if the new smoothed value exceeds the old peak, else
  \<open>peak[i] := peak[i] * peak_decay_rate\<close>; both are copied into the result.  So in a
  frame with zero raw magnitude in which \<open>s * smoothed[i]\<close> does not exceed the peak,
  the peak is multiplied by \<open>peak_decay_rate\<close>, a strict decrease when the peak is
  positive and the rate is below 1.  (Here \<open>raw\<close> is the band magnitude computed from this
  frame's FFT output.)
\<close>

theorem update_band_rules:
  assumes ns: "\<not> rb_size (ring_buffer (audio a)) < fft_size (config (fft a)) div 4"
    and u: "update fftw now a = Inr (res, a')"
    and ls: "length (smoothed_magnitudes a) = unat (num_bands (analyzer_config a))"
    and lp: "length (peak_values a) = unat (num_bands (analyzer_config a))"
    and i: "i < unat (num_bands (analyzer_config a))"
  shows "smoothed_magnitudes a' ! i
           = (1 - smoothing_factor (analyzer_config a)) * compute_band_magnitude a' (of_nat i)
               + smoothing_factor (analyzer_config a) * smoothed_magnitudes a ! i
    \<and> peak_values a' ! i
           = (if smoothed_magnitudes a' ! i > peak_values a ! i then smoothed_magnitudes a' ! i
              else peak_values a ! i * peak_decay_rate (analyzer_config a))
    \<and> magnitudes res ! i = smoothed_magnitudes a' ! i
    \<and> peaks res ! i = peak_values a' ! i
    \<and> (compute_band_magnitude a' (of_nat i) = 0
         \<and> smoothing_factor (analyzer_config a) * smoothed_magnitudes a ! i \<le> peak_values a ! i
         \<longrightarrow> peak_values a' ! i = peak_values a ! i * peak_decay_rate (analyzer_config a))
    \<and> (compute_band_magnitude a' (of_nat i) = 0
         \<and> smoothing_factor (analyzer_config a) * smoothed_magnitudes a ! i \<le> peak_values a ! i
         \<and> 0 < peak_values a ! i \<and> peak_decay_rate (analyzer_config a) < 1
         \<longrightarrow> peak_values a' ! i < peak_values a ! i)"
proof -
  from update_not_starved [OF ns u ls lp] obtain a1 where
    a1: "band_bins a1 = band_bins a'" "magnitude_buffer a1 = magnitude_buffer a'"
      "analyzer_config a1 = analyzer_config a"
      "smoothed_magnitudes a1 = smoothed_magnitudes a" "peak_values a1 = peak_values a"
    and n: "smoothed_magnitudes a' = map (smoothed_new a1) [0..<unat (num_bands (analyzer_config a))]"
      "peak_values a' = map (peak_new a1) [0..<unat (num_bands (analyzer_config a))]"
      "magnitudes res = map (smoothed_new a1) [0..<unat (num_bands (analyzer_config a))]"
      "peaks res = map (peak_new a1) [0..<unat (num_bands (analyzer_config a))]"
    by blast
  have raw: "compute_band_magnitude a1 (of_nat i) = compute_band_magnitude a' (of_nat i)"
    using a1(1,2) by (simp add: compute_band_magnitude_def Let_def)
  have s: "smoothed_magnitudes a' ! i
           = (1 - smoothing_factor (analyzer_config a)) * compute_band_magnitude a' (of_nat i)
               + smoothing_factor (analyzer_config a) * smoothed_magnitudes a ! i"
    using i by (simp add: n smoothed_new_def a1 raw)
  have p: "peak_values a' ! i
           = (if smoothed_magnitudes a' ! i > peak_values a ! i then smoothed_magnitudes a' ! i
              else peak_values a ! i * peak_decay_rate (analyzer_config a))"
    using i by (simp add: n peak_new_def a1)
  have m: "magnitudes res ! i = smoothed_magnitudes a' ! i" "peaks res ! i = peak_values a' ! i"
    using i by (simp_all add: n)
  have d: "peak_values a' ! i = peak_values a ! i * peak_decay_rate (analyzer_config a)"
    if "compute_band_magnitude a' (of_nat i) = 0"
      "smoothing_factor (analyzer_config a) * smoothed_magnitudes a ! i \<le> peak_values a ! i"
    using that unfolding p s by simp
  have d2: "peak_values a' ! i < peak_values a ! i"
    if "compute_band_magnitude a' (of_nat i) = 0"
      "smoothing_factor (analyzer_config a) * smoothed_magnitudes a ! i \<le> peak_values a ! i"
      "0 < peak_values a ! i" "peak_decay_rate (analyzer_config a) < 1"
  proof -
    have "peak_values a ! i * peak_decay_rate (analyzer_config a) < peak_values a ! i * 1"
      using that(3,4) by (intro mult_strict_left_mono) simp_all
    then show ?thesis using d [OF that(1,2)] by simp
  qed
  from s p m d d2 show ?thesis by blast
qed

theorem update_band_rules_witness:
  "\<not> rb_size (ring_buffer (audio (quiet_state 4 0 (1 / 2) (1 / 2))))
       < fft_size (config (fft (quiet_state 4 0 (1 / 2) (1 / 2)))) div 4
   \<and> update dft4_fftw 0 (quiet_state 4 0 (1 / 2) (1 / 2))
     = Inr (\<lparr>magnitudes = [1 / 4], peaks = [1 / 8], rms_level = 0, peak_level = 0, timestamp = 0\<rparr>,
            quiet_state 4 4 (1 / 4) (1 / 8))
   \<and> smoothed_magnitudes (quiet_state 4 4 (1 / 4) (1 / 8)) ! 0
       = (1 - 1 / 2) * compute_band_magnitude (quiet_state 4 4 (1 / 4) (1 / 8)) 0 + 1 / 2 * (1 / 2)
   \<and> peak_values (quiet_state 4 4 (1 / 4) (1 / 8)) ! 0 = 1 / 2 * (1 / 4)
   \<and> peak_values (quiet_state 4 4 (1 / 4) (1 / 8)) ! 0
       < peak_values (quiet_state 4 0 (1 / 2) (1 / 2)) ! 0"
proof -
  let ?a = "quiet_state 4 0 (1 / 2) (1 / 2)"
  let ?a' = "quiet_state 4 4 (1 / 4) (1 / 8)"
  have ns: "\<not> rb_size (ring_buffer (audio ?a)) < fft_size (config (fft ?a)) div 4"
    by (simp add: qs rb_size_def wcmp unat_div)
  have u: "update dft4_fftw 0 ?a
     = Inr (\<lparr>magnitudes = [1 / 4], peaks = [1 / 8], rms_level = 0, peak_level = 0, timestamp = 0\<rparr>, ?a')"
    by (simp add: frame0)
  have ls: "length (smoothed_magnitudes ?a) = unat (num_bands (analyzer_config ?a))"
    and lp: "length (peak_values ?a) = unat (num_bands (analyzer_config ?a))"
    and i: "0 < unat (num_bands (analyzer_config ?a))"
    by (simp_all add: qs)
  have raw: "compute_band_magnitude ?a' (of_nat 0) = 0"
    by (simp add: compute_band_magnitude_def qs Let_def upt_lits wcmp)
  have f: "smoothing_factor (analyzer_config ?a) = 1 / 2" "peak_decay_rate (analyzer_config ?a) = 1 / 4"
    "smoothed_magnitudes ?a ! 0 = 1 / 2" "peak_values ?a ! 0 = 1 / 2"
    by (simp_all add: qs)
  note t = update_band_rules [OF ns u ls lp i, unfolded f]
  from t raw have "peak_values ?a' ! 0 = 1 / 2 * (1 / 4)" "peak_values ?a' ! 0 < 1 / 2"
    by simp_all
  moreover from t have "smoothed_magnitudes ?a' ! 0
       = (1 - 1 / 2) * compute_band_magnitude ?a' (of_nat 0) + 1 / 2 * (1 / 2)"
    by blast
  ultimately show ?thesis using ns u by (simp add: f)
qed

text \<open>
  The claim as stated fails.  Take the analyzer the constructor builds (smoothing factor
  1/2, decay rate 1/4), feed one batch of samples of value 1 and then silence, one
  \<^verbatim>\<open>update()\<close> per batch.  The loud frame has raw magnitude 1 and leaves smoothed value
  and peak at 1/2.  In each of the three silent frames the raw magnitude is 0; the peak
  goes to 1/8, then to 1/32, and in the third silent frame up to 1/16, because the
  decaying smoothed value has overtaken it.
\<close>

theorem peak_rises_in_silence:
  "update dft4_fftw 0 (feed [1, 1, 1, 1] (quiet_state 0 0 0 0))
     = Inr (\<lparr>magnitudes = [1 / 2], peaks = [1 / 2], rms_level = 1, peak_level = 1, timestamp = 0\<rparr>,
            test_state [1, 1, 1, 1] 4 4 [1, 1, 1, 1] [1, 0, 0] (1 / 2) (1 / 2))
   \<and> update dft4_fftw 1 (feed [0, 0, 0, 0] (test_state [1, 1, 1, 1] 4 4 [1, 1, 1, 1] [1, 0, 0] (1 / 2) (1 / 2)))
     = Inr (\<lparr>magnitudes = [1 / 4], peaks = [1 / 8], rms_level = 0, peak_level = 0, timestamp = 1\<rparr>,
            quiet_state 8 8 (1 / 4) (1 / 8))
   \<and> update dft4_fftw 2 (feed [0, 0, 0, 0] (quiet_state 8 8 (1 / 4) (1 / 8)))
     = Inr (\<lparr>magnitudes = [1 / 8], peaks = [1 / 32], rms_level = 0, peak_level = 0, timestamp = 2\<rparr>,
            quiet_state 12 12 (1 / 8) (1 / 32))
   \<and> update dft4_fftw 3 (feed [0, 0, 0, 0] (quiet_state 12 12 (1 / 8) (1 / 32)))
     = Inr (\<lparr>magnitudes = [1 / 16], peaks = [1 / 16], rms_level = 0, peak_level = 0, timestamp = 3\<rparr>,
            quiet_state 16 16 (1 / 16) (1 / 16))
   \<and> compute_band_magnitude (quiet_state 8 8 (1 / 4) (1 / 8)) 0 = 0
   \<and> compute_band_magnitude (quiet_state 12 12 (1 / 8) (1 / 32)) 0 = 0
   \<and> compute_band_magnitude (quiet_state 16 16 (1 / 16) (1 / 16)) 0 = 0
   \<and> peak_values (quiet_state 12 12 (1 / 8) (1 / 32)) ! 0
       < peak_values (quiet_state 16 16 (1 / 16) (1 / 16)) ! 0"
proof -
  have "compute_band_magnitude (quiet_state w r x y) 0 = 0" for w r x y
    by (simp add: compute_band_magnitude_def qs Let_def upt_lits wcmp)
  moreover have "peak_values (quiet_state 12 12 (1 / 8) (1 / 32)) ! 0
       < peak_values (quiet_state 16 16 (1 / 16) (1 / 16)) ! 0"
    by (simp add: qs)
  ultimately show ?thesis
    by (simp add: feed_loud frame_loud feed_after frame_after feed8 frame8 feed12 frame12)
qed

section \<open>Peek and discard against the span pop\<close>

text \<open>
  Claim C5.  In every ring buffer state and for every output span \<open>out\<close> of \<open>k\<close>
  elements, \<^verbatim>\<open>peek(out)\<close> followed by \<^verbatim>\<open>discard(k)\<close> copies the same values into
  the span, reports the same count and leaves the buffer in the same state
  (read position, write position, storage) as \<^verbatim>\<open>try_pop(out)\<close>.
\<close>

theorem peek_discard_eq_try_pop:
  "try_pop_span out rb =
     (fst (peek out rb), snd (peek out rb), snd (discard (span_size out) rb))
   \<and> fst (discard (span_size out) rb) = snd (peek out rb)"
  by (simp add: try_pop_span_def peek_def discard_def Let_def)

theorem peek_discard_eq_try_pop_witness:
  "try_pop_span [0, 0 :: nat]
      \<lparr>capacity = 4, mask_f = 3, buffer = [7, 8, 9, 0], write_pos = 3, read_pos = 0\<rparr>
   = ([7, 8], 2, \<lparr>capacity = 4, mask_f = 3, buffer = [7, 8, 9, 0], write_pos = 3, read_pos = 2\<rparr>)
   \<and> snd (discard (span_size [0, 0 :: nat])
      \<lparr>capacity = 4, mask_f = 3, buffer = [7, 8, 9, 0 :: nat], write_pos = 3, read_pos = 0\<rparr>)
   = \<lparr>capacity = 4, mask_f = 3, buffer = [7, 8, 9, 0], write_pos = 3, read_pos = 2\<rparr>"
  using peek_discard_eq_try_pop
    [of "[0, 0 :: nat]"
        "\<lparr>capacity = 4, mask_f = 3, buffer = [7, 8, 9, 0], write_pos = 3, read_pos = 0\<rparr>"]
  by (simp add: peek_def discard_def copy_out_def span_size_def Let_def upt_rec)

end
